theory Spec2Isabelle
  imports Complex_Main "HOL-Library.AList"
begin

section \<open>Numbers and constants of visualization.js\<close>

text \<open>
  JavaScript numbers are modelled as real numbers: \<open>Math.sqrt\<close>, \<open>Math.cos\<close> and
  \<open>Math.sin\<close> are the real functions, \<open>Math.floor\<close> and \<open>Math.ceil\<close> are floor and
  ceiling, and \<open>Math.round\<close> rounds half up. Counts and indices are natural numbers.
  The rounding of IEEE doubles is modelled where a whole number is read off a quotient, in
  the progress percentage of the pipeline; it is not modelled in the layout.
\<close>

definition SPACING :: real where
  "SPACING = 10"

definition LOD_DISTANCE :: real where
  "LOD_DISTANCE = 50"

definition CATEGORY_SPACING_X :: real where
  "CATEGORY_SPACING_X = SPACING * 25"

definition centerX :: real where
  "centerX = 0"

definition centerZ :: real where
  "centerZ = 0"

definition categoryY :: real where
  "categoryY = 0"

section \<open>Spiral anchors of the categories\<close>

text \<open>
  \<open>getSpiralCoordinates(index, totalCategories)\<close>: index 0 sits at the centre, every other
  index on a spiral. The second argument is not used by the source either.
\<close>

definition spiral_angle :: "nat \<Rightarrow> real" where
  "spiral_angle index = real index * 0.5"

definition spiral_radius :: "nat \<Rightarrow> real" where
  "spiral_radius index = sqrt (real index) * CATEGORY_SPACING_X * 2"

definition getSpiralCoordinates :: "nat \<Rightarrow> nat \<Rightarrow> real \<times> real" where
  "getSpiralCoordinates index totalCategories =
     (if index = 0 then (centerX, centerZ)
      else (centerX + spiral_radius index * cos (spiral_angle index),
            centerZ + spiral_radius index * sin (spiral_angle index)))"

text \<open>The anchor of a category as a point of space: \<open>categoryY\<close> is the constant 0.\<close>

definition category_anchor :: "nat \<Rightarrow> nat \<Rightarrow> real \<times> real \<times> real" where
  "category_anchor index totalCategories =
     (case getSpiralCoordinates index totalCategories of (x, z) \<Rightarrow> (x, categoryY, z))"

section \<open>The scene: sprites, the position index, the texture caches\<close>

text \<open>
  A position key is the template string built from the three coordinates,
  \<^verbatim>\<open>`${x},${y},${z}`\<close>. In the index it is represented by the three numbers it
  renders: the string is a function of the three numbers, the conversion of a number to a
  string gives different numbers different strings (only 0 and -0, which are equal as
  numbers, are written alike), and \<open>updateLOD\<close> reads the numbers back with
  \<^verbatim>\<open>key.split(',').map(Number)\<close>. So two keys are the same string exactly when
  they are the same three numbers.
\<close>

type_synonym vec3 = "real \<times> real \<times> real"

type_synonym position_key = "real \<times> real \<times> real"

definition positionKey :: "real \<Rightarrow> real \<Rightarrow> real \<Rightarrow> position_key" where
  "positionKey x y z = (x, y, z)"

definition key_numbers :: "position_key \<Rightarrow> vec3" where
  "key_numbers key = key"

text \<open>
  The texture shown by a sprite is the shared placeholder, a texture loaded with linear
  filtering (standard tier) or one loaded with mipmaps and anisotropy (high tier).
\<close>

datatype texture = placeholderTexture | StandardTexture string | HighTexture string

record sprite_object =
  position :: vec3
  visible :: bool
  material_map :: texture

text \<open>
  The objects stored in \<open>imageData\<close>. The field \<open>sprite\<close> is a reference: the index of
  the sprite in creation order.
\<close>

record image_entry =
  filename :: string
  category :: string
  confidence :: real
  sprite :: nat
  loaded :: bool
  highQualityLoaded :: bool

text \<open>
  A texture load in flight, with what its callbacks close over: the standard load of
  \<open>createParticleGroups\<close> (file name, sprite, position key) and the high-quality load of
  \<open>updateLOD\<close> (file name, sprite, and the \<open>data\<close> object, given by its place in
  \<open>imageData\<close>).
\<close>

datatype request =
    StandardLoad string nat position_key
  | HighLoad string nat nat

text \<open>
  \<open>imageData\<close> is a JavaScript Map: an association list in insertion order, where
  setting a key that is present replaces its value in place.
\<close>

record scene =
  sprites :: "sprite_object list"
  imageData :: "(position_key \<times> image_entry) list"
  highResTextures :: "string \<rightharpoonup> texture"
  pendingTextures :: "string list"
  loading :: "request list"

definition initial_scene :: scene where
  "initial_scene = \<lparr>sprites = [], imageData = [], highResTextures = Map.empty,
     pendingTextures = [], loading = []\<rparr>"

section \<open>Layout: createParticleGroups\<close>

type_synonym classified = "string \<times> real"

type_synonym categories = "(string \<times> classified list) list"

text \<open>Categories by descending number of images; \<open>Array.prototype.sort\<close> is stable.\<close>

definition sortedCategories :: "categories \<Rightarrow> categories" where
  "sortedCategories categoriesMap =
     sort_key (\<lambda>entry. - int (length (snd entry))) categoriesMap"

definition grid_cols :: "nat \<Rightarrow> nat" where
  "grid_cols n = nat \<lceil>sqrt (real n)\<rceil>"

definition image_position :: "real \<times> real \<Rightarrow> nat \<Rightarrow> nat \<Rightarrow> nat \<Rightarrow> real \<Rightarrow> vec3" where
  "image_position anchor cols n i conf =
     (case anchor of (categoryX, categoryZ) \<Rightarrow>
        let x = categoryX + real (i mod cols) * SPACING - (real cols * SPACING) / 2;
            z = categoryZ + of_int \<lfloor>real i / real cols\<rfloor> * SPACING
                  - (of_int \<lfloor>real n / real cols\<rfloor> * SPACING) / 2;
            confidenceElevation = conf * 30;
            y = categoryY + confidenceElevation
        in (x, y, z))"

definition place_image ::
  "string \<Rightarrow> real \<times> real \<Rightarrow> nat \<Rightarrow> nat \<Rightarrow> nat \<times> classified \<Rightarrow> scene \<Rightarrow> scene" where
  "place_image cat anchor cols n item s =
     (case item of (i, (fname, conf)) \<Rightarrow>
      case image_position anchor cols n i conf of (x, y, z) \<Rightarrow>
        let sid = length (sprites s);
            sp = \<lparr>position = (x, y, z), visible = True, material_map = placeholderTexture\<rparr>;
            key = positionKey x y z;
            s1 = s\<lparr>sprites := sprites s @ [sp],
                   imageData := AList.update key
                     \<lparr>filename = fname, category = cat, confidence = conf, sprite = sid,
                      loaded = False, highQualityLoaded = False\<rparr> (imageData s)\<rparr>
        in if fname \<in> set (pendingTextures s1) then s1
           else s1\<lparr>pendingTextures := pendingTextures s1 @ [fname],
                    loading := loading s1 @ [StandardLoad fname sid key]\<rparr>)"

definition place_category :: "nat \<Rightarrow> nat \<times> string \<times> classified list \<Rightarrow> scene \<Rightarrow> scene" where
  "place_category totalCategories entry s =
     (case entry of (categoryIndex, (cat, images)) \<Rightarrow>
        let anchor = getSpiralCoordinates categoryIndex totalCategories;
            cols = grid_cols (length images)
        in fold (place_image cat anchor cols (length images)) (enumerate 0 images) s)"

definition createParticleGroups :: "categories \<Rightarrow> scene \<Rightarrow> scene" where
  "createParticleGroups categoriesMap s =
     (let sorted = sortedCategories categoriesMap;
          totalCategories = length sorted
      in fold (place_category totalCategories) (enumerate 0 sorted) s)"

section \<open>Texture loads completing\<close>

definition standardLoaded :: "string \<Rightarrow> nat \<Rightarrow> position_key \<Rightarrow> scene \<Rightarrow> scene" where
  "standardLoaded fname sid key s =
     (let tex = StandardTexture fname;
          s1 = s\<lparr>highResTextures := (highResTextures s)(fname \<mapsto> tex)\<rparr>;
          s2 = (case map_of (imageData s1) key of
                  None \<Rightarrow> s1
                | Some imageDataEntry \<Rightarrow>
                    s1\<lparr>sprites := (sprites s1)[sid := (sprites s1 ! sid)\<lparr>material_map := tex\<rparr>],
                       imageData := AList.update key (imageDataEntry\<lparr>loaded := True\<rparr>)
                                      (imageData s1)\<rparr>)
      in s2\<lparr>pendingTextures := removeAll fname (pendingTextures s2)\<rparr>)"

definition set_highQualityLoaded ::
  "bool \<Rightarrow> position_key \<times> image_entry \<Rightarrow> position_key \<times> image_entry" where
  "set_highQualityLoaded b e = (fst e, (snd e)\<lparr>highQualityLoaded := b\<rparr>)"

definition highLoaded :: "string \<Rightarrow> nat \<Rightarrow> nat \<Rightarrow> scene \<Rightarrow> scene" where
  "highLoaded fname sid i s =
     (let tex = HighTexture fname
      in s\<lparr>highResTextures := (highResTextures s)(''hq_'' @ fname \<mapsto> tex),
           pendingTextures := removeAll (''hq_'' @ fname) (pendingTextures s),
           sprites := (sprites s)[sid := (sprites s ! sid)\<lparr>material_map := tex\<rparr>],
           imageData := (imageData s)[i := set_highQualityLoaded True (imageData s ! i)]\<rparr>)"

fun load_succeeds :: "request \<Rightarrow> scene \<Rightarrow> scene" where
  "load_succeeds (StandardLoad fname sid key) s = standardLoaded fname sid key s"
| "load_succeeds (HighLoad fname sid i) s = highLoaded fname sid i s"

fun load_fails :: "request \<Rightarrow> scene \<Rightarrow> scene" where
  "load_fails (StandardLoad fname sid key) s =
     s\<lparr>pendingTextures := removeAll fname (pendingTextures s)\<rparr>"
| "load_fails (HighLoad fname sid i) s =
     s\<lparr>pendingTextures := removeAll (''hq_'' @ fname) (pendingTextures s)\<rparr>"

section \<open>Level of detail: updateLOD\<close>

definition distanceTo :: "vec3 \<Rightarrow> vec3 \<Rightarrow> real" where
  "distanceTo a b =
     (case a of (ax, ay, az) \<Rightarrow> case b of (bx, by, bz) \<Rightarrow>
        let dx = ax - bx; dy = ay - by; dz = az - bz
        in sqrt (dx * dx + dy * dy + dz * dz))"

text \<open>The body of the \<open>forEach\<close> of \<open>updateLOD\<close>, for the entry at place \<open>i\<close>.\<close>

definition lod_entry :: "vec3 \<Rightarrow> nat \<Rightarrow> scene \<Rightarrow> scene" where
  "lod_entry camera_position i s =
     (case imageData s ! i of (key, data) \<Rightarrow>
        let sp = sprites s ! sprite data
        in if \<not> visible sp then s
           else
             let distance = distanceTo camera_position (key_numbers key)
             in if distance < LOD_DISTANCE \<and> \<not> highQualityLoaded data then
                  (if ''hq_'' @ filename data \<in> set (pendingTextures s) then s
                   else s\<lparr>pendingTextures := pendingTextures s @ [''hq_'' @ filename data],
                          loading := loading s @ [HighLoad (filename data) (sprite data) i]\<rparr>)
                else if distance \<ge> LOD_DISTANCE \<and> highQualityLoaded data then
                  (case highResTextures s (filename data) of
                     None \<Rightarrow> s
                   | Some tex \<Rightarrow>
                       s\<lparr>sprites := (sprites s)[sprite data := sp\<lparr>material_map := tex\<rparr>],
                         imageData := (imageData s)[i := set_highQualityLoaded False (key, data)]\<rparr>)
                else s)"

definition updateLOD :: "vec3 \<Rightarrow> scene \<Rightarrow> scene" where
  "updateLOD camera_position s = fold (lod_entry camera_position) [0..<length (imageData s)] s"

section \<open>Confidence filter: filterImagesByConfidence\<close>

definition filter_entry :: "real \<Rightarrow> nat \<Rightarrow> scene \<Rightarrow> scene" where
  "filter_entry threshold i s =
     (case imageData s ! i of (key, data) \<Rightarrow>
        if confidence data \<ge> threshold
        then s\<lparr>sprites := (sprites s)[sprite data := (sprites s ! sprite data)\<lparr>visible := True\<rparr>]\<rparr>
        else s\<lparr>sprites := (sprites s)[sprite data := (sprites s ! sprite data)\<lparr>visible := False\<rparr>]\<rparr>)"

definition filterImagesByConfidence :: "real \<Rightarrow> scene \<Rightarrow> scene" where
  "filterImagesByConfidence threshold s =
     fold (filter_entry threshold) [0..<length (imageData s)] s"

section \<open>Selection: the lookup of onClick\<close>

text \<open>
  \<open>onClick\<close> rebuilds the key from the position of the sprite that was hit and looks it
  up in \<open>imageData\<close>.
\<close>

definition rebuilt_key :: "scene \<Rightarrow> nat \<Rightarrow> position_key" where
  "rebuilt_key s sid = (case position (sprites s ! sid) of (x, y, z) \<Rightarrow> positionKey x y z)"

definition onClick_lookup :: "scene \<Rightarrow> nat \<Rightarrow> image_entry option" where
  "onClick_lookup s sid = map_of (imageData s) (rebuilt_key s sid)"

section \<open>Events after layout\<close>

datatype event =
    LoadSucceeds nat
  | LoadFails nat
  | CameraChange vec3
  | ConfidenceSlider real

definition remove_nth :: "nat \<Rightarrow> 'a list \<Rightarrow> 'a list" where
  "remove_nth n xs = take n xs @ drop (Suc n) xs"

fun step :: "event \<Rightarrow> scene \<Rightarrow> scene" where
  "step (LoadSucceeds n) s =
     (if n < length (loading s)
      then load_succeeds (loading s ! n) (s\<lparr>loading := remove_nth n (loading s)\<rparr>) else s)"
| "step (LoadFails n) s =
     (if n < length (loading s)
      then load_fails (loading s ! n) (s\<lparr>loading := remove_nth n (loading s)\<rparr>) else s)"
| "step (CameraChange camera_position) s = updateLOD camera_position s"
| "step (ConfidenceSlider threshold) s = filterImagesByConfidence threshold s"

definition run :: "event list \<Rightarrow> scene \<Rightarrow> scene" where
  "run events s = fold step events s"

section \<open>Classification pipeline: processImagesInBatches\<close>

definition BATCH_SIZE :: nat where
  "BATCH_SIZE = 10"

text \<open>
  What happens to the image at an index of the manifest is given by the environment: the
  image fails to load (\<open>onerror\<close>), the promise of \<open>classifier.classify\<close> is rejected,
  or it is fulfilled with the ranked list of labels and confidences.
\<close>

datatype outcome = LoadError | ClassifyRejected | Classified "(string \<times> real) list"

text \<open>
  \<open>categoriesMap\<close> is a plain object used as a dictionary from labels to arrays, read in
  insertion order; labels are taken not to name a member of \<open>Object.prototype\<close>.
\<close>

definition push_result :: "string \<Rightarrow> classified \<Rightarrow> categories \<Rightarrow> categories" where
  "push_result label item categoriesMap =
     (case map_of categoriesMap label of
        None \<Rightarrow> AList.update label [item] categoriesMap
      | Some items \<Rightarrow> AList.update label (items @ [item]) categoriesMap)"

text \<open>
  The promise of an image is only ever resolved, by \<open>onerror\<close> or at the end of the
  callback of \<open>classify\<close>. Nothing resolves it when the classifier's promise is rejected,
  nor when the list of results is empty and reading \<open>results[0].label\<close> throws.
\<close>

fun promise_settles :: "outcome \<Rightarrow> bool" where
  "promise_settles LoadError = True"
| "promise_settles ClassifyRejected = False"
| "promise_settles (Classified []) = False"
| "promise_settles (Classified (r # rest)) = True"

fun promise_effect :: "outcome \<Rightarrow> string \<Rightarrow> categories \<Rightarrow> categories" where
  "promise_effect (Classified ((label, conf) # rest)) file categoriesMap =
     push_result label (file, conf) categoriesMap"
| "promise_effect other file categoriesMap = categoriesMap"

definition batch_last :: "string list \<Rightarrow> nat \<Rightarrow> nat" where
  "batch_last imageFiles startIndex = min (startIndex + BATCH_SIZE) (length imageFiles)"

text \<open>
  The percentage is computed in IEEE 754 doubles, \<open>(endIndex / length) * 100\<close>: the
  quotient is rounded to the nearest double, ties to the even significand, and so is the
  product. A double has a significand of 53 bits, so between \<open>2 ^ e\<close> and
  \<open>2 ^ (e + 1)\<close> the doubles are the multiples of \<open>2 ^ (e - 52)\<close>. Overflow and
  subnormal numbers do not occur at quotients of array indices. \<open>bits n\<close> is the
  number of binary digits of \<open>n\<close> and \<open>expo x\<close> the exponent \<open>e\<close> of a positive
  \<open>x\<close>.
\<close>

fun bits :: "nat \<Rightarrow> nat" where
  "bits n = (if n = 0 then 0 else Suc (bits (n div 2)))"

declare bits.simps [simp del]

definition expo :: "real \<Rightarrow> int" where
  "expo x = (if 1 \<le> x then int (bits (nat \<lfloor>x\<rfloor>)) - 1
             else - int (bits (nat (\<lceil>1 / x\<rceil> - 1))))"

definition round_half_even :: "real \<Rightarrow> int" where
  "round_half_even x =
     (let f = \<lfloor>x\<rfloor>
      in if x - of_int f < 1 / 2 then f
         else if 1 / 2 < x - of_int f then f + 1
         else if even f then f else f + 1)"

definition double :: "real \<Rightarrow> real" where
  "double x =
     (if x = 0 then 0
      else let ulp = 2 powi (expo \<bar>x\<bar> - 52)
           in sgn x * (of_int (round_half_even (\<bar>x\<bar> / ulp)) * ulp))"

text \<open>
  \<open>Math.round\<close> gives the nearest integer, halves upwards. For an empty manifest the
  quotient is 0/0, which is NaN: the progress shown is then \<open>None\<close>. Indices and
  lengths are integers below \<open>2 ^ 53\<close>, which are doubles.
\<close>

definition Math_round :: "real \<Rightarrow> int" where
  "Math_round x = \<lfloor>x + 1 / 2\<rfloor>"

definition percentComplete :: "nat \<Rightarrow> nat \<Rightarrow> int option" where
  "percentComplete endIndex len =
     (if len = 0 then None
      else Some (Math_round (double (double (real endIndex / real len) * 100))))"

text \<open>
  What one call of \<open>processImagesInBatches\<close> does with its batch: the indices it covers,
  the progress it shows, and the promises that settle. Within a batch the promises are
  taken in index order; the order in which they really complete is left to the runtime.
\<close>

record batch_log =
  batch_start :: nat
  batch_end :: nat
  progress_shown :: "int option"
  settled :: "nat list"

definition run_batch :: "(nat \<Rightarrow> outcome) \<Rightarrow> string list \<Rightarrow> nat \<Rightarrow> nat \<Rightarrow> categories \<Rightarrow> categories" where
  "run_batch env imageFiles startIndex endIndex categoriesMap =
     fold (\<lambda>i. promise_effect (env i) (imageFiles ! i)) [startIndex..<endIndex] categoriesMap"

definition log_batch :: "(nat \<Rightarrow> outcome) \<Rightarrow> string list \<Rightarrow> nat \<Rightarrow> batch_log" where
  "log_batch env imageFiles startIndex =
     \<lparr>batch_start = startIndex,
      batch_end = batch_last imageFiles startIndex,
      progress_shown = percentComplete (batch_last imageFiles startIndex) (length imageFiles),
      settled = filter (\<lambda>i. promise_settles (env i))
                  [startIndex..<batch_last imageFiles startIndex]\<rparr>"

text \<open>
  The calls follow each other through \<open>Promise.all(promises).then\<close>: the next call, or
  the end of the pipeline, happens only once every promise of the batch has settled. The
  result is the list of the batches that were started, with the mapping that is handed to
  \<open>createParticleGroups\<close>, or \<open>None\<close> when a joint promise never settles.
\<close>

function processImagesInBatches ::
  "(nat \<Rightarrow> outcome) \<Rightarrow> string list \<Rightarrow> nat \<Rightarrow> categories \<Rightarrow> batch_log list \<times> categories option"
where
  "processImagesInBatches env imageFiles startIndex categoriesMap =
     (if \<not> list_all (\<lambda>i. promise_settles (env i)) [startIndex..<batch_last imageFiles startIndex]
      then ([log_batch env imageFiles startIndex], None)
      else if batch_last imageFiles startIndex < length imageFiles
      then (case processImagesInBatches env imageFiles (batch_last imageFiles startIndex)
                   (run_batch env imageFiles startIndex (batch_last imageFiles startIndex)
                      categoriesMap)
            of (logs, result) \<Rightarrow> (log_batch env imageFiles startIndex # logs, result))
      else ([log_batch env imageFiles startIndex],
            Some (run_batch env imageFiles startIndex (batch_last imageFiles startIndex)
                    categoriesMap)))"
  by pat_completeness auto
termination
  by (relation "measure (\<lambda>(env, imageFiles, startIndex, categoriesMap).
        length imageFiles - startIndex)")
    (auto simp: batch_last_def BATCH_SIZE_def)

declare processImagesInBatches.simps [simp del]

text \<open>
  The order of things within one call. The loop creates the promises of the batch, then
  the progress is written, then \<open>Promise.all\<close> is set up and the call returns. The
  callbacks \<open>onload\<close> and \<open>onerror\<close> run later, so every promise of the batch
  settles after the progress was written, and the next call comes after all of them.
\<close>

datatype pipeline_event = PromiseCreated nat | ProgressShown "int option" | PromiseSettled nat

definition call_events :: "(nat \<Rightarrow> outcome) \<Rightarrow> string list \<Rightarrow> nat \<Rightarrow> pipeline_event list" where
  "call_events env imageFiles startIndex =
     (let endIndex = batch_last imageFiles startIndex
      in map PromiseCreated [startIndex..<endIndex]
         @ [ProgressShown (percentComplete endIndex (length imageFiles))]
         @ map PromiseSettled (filter (\<lambda>i. promise_settles (env i)) [startIndex..<endIndex]))"

definition pipeline_events :: "(nat \<Rightarrow> outcome) \<Rightarrow> string list \<Rightarrow> pipeline_event list" where
  "pipeline_events env imageFiles =
     concat (map (\<lambda>b. call_events env imageFiles (batch_start b))
               (fst (processImagesInBatches env imageFiles 0 [])))"

section \<open>Auto-rotation\<close>

text \<open>
  The three globals \<open>autoRotate\<close>, \<open>userInteracted\<close> and \<open>lastUserInteractionTime\<close>,
  and the timer set at the end of \<open>createParticleGroups\<close> with its due time. Every event
  carries the value of \<open>Date.now()\<close> at which it happens: the \<open>start\<close> and \<open>end\<close>
  events of the controls, a frame of \<open>animate\<close>, the end of the layout, and the timer
  firing. A timer does not fire before it is due.
\<close>

definition AUTO_ROTATE_RESUME_DELAY :: int where
  "AUTO_ROTATE_RESUME_DELAY = 10000"

definition WARMUP_DELAY :: int where
  "WARMUP_DELAY = 8000"

record rotation =
  autoRotate :: bool
  userInteracted :: bool
  lastUserInteractionTime :: int
  warmup_timer :: "int option"

definition initial_rotation :: rotation where
  "initial_rotation = \<lparr>autoRotate = False, userInteracted = False,
     lastUserInteractionTime = 0, warmup_timer = None\<rparr>"

datatype rotation_event =
    ControlsStart int
  | ControlsEnd int
  | AnimateFrame int
  | LayoutDone int
  | WarmupTimeout int

fun rotation_step :: "rotation_event \<Rightarrow> rotation \<Rightarrow> rotation" where
  "rotation_step (ControlsStart now) s = s\<lparr>userInteracted := True, autoRotate := False\<rparr>"
| "rotation_step (ControlsEnd now) s = s\<lparr>lastUserInteractionTime := now\<rparr>"
| "rotation_step (AnimateFrame now) s =
     (if userInteracted s \<and> \<not> autoRotate s
         \<and> now - lastUserInteractionTime s > AUTO_ROTATE_RESUME_DELAY
      then s\<lparr>autoRotate := True, userInteracted := False\<rparr>
      else s)"
| "rotation_step (LayoutDone now) s = s\<lparr>warmup_timer := Some (now + WARMUP_DELAY)\<rparr>"
| "rotation_step (WarmupTimeout now) s =
     (case warmup_timer s of
        None \<Rightarrow> s
      | Some due \<Rightarrow> if due \<le> now then s\<lparr>autoRotate := True, warmup_timer := None\<rparr> else s)"

definition rotation_run :: "rotation_event list \<Rightarrow> rotation \<Rightarrow> rotation" where
  "rotation_run events s = fold rotation_step events s"

section \<open>Notions used by the theorems\<close>

text \<open>
  The part of the scene that no event after the layout changes: the positions of the
  sprites, and the key, file, category, confidence and sprite of every record.
\<close>

definition static_entry :: "image_entry \<Rightarrow> string \<times> string \<times> real \<times> nat" where
  "static_entry e = (filename e, category e, confidence e, sprite e)"

definition frame :: "scene \<Rightarrow> vec3 list \<times> (position_key \<times> string \<times> string \<times> real \<times> nat) list" where
  "frame s = (map position (sprites s), map (\<lambda>ke. (fst ke, static_entry (snd ke))) (imageData s))"

text \<open>
  The position index is well formed: every record points to a sprite that exists and sits
  at the record's key, no two records share a sprite, and the position of every sprite is
  a key of the index.
\<close>

definition index_ok :: "scene \<Rightarrow> bool" where
  "index_ok s \<longleftrightarrow>
     (\<forall>ke \<in> set (imageData s).
        sprite (snd ke) < length (sprites s) \<and> position (sprites s ! sprite (snd ke)) = fst ke)
     \<and> distinct (map (\<lambda>ke. sprite (snd ke)) (imageData s))
     \<and> (\<forall>sid < length (sprites s). position (sprites s ! sid) \<in> fst ` set (imageData s))"

definition frame_ok :: "vec3 list \<times> (position_key \<times> string \<times> string \<times> real \<times> nat) list \<Rightarrow> bool" where
  "frame_ok fr \<longleftrightarrow>
     (\<forall>kf \<in> set (snd fr).
        snd (snd (snd (snd kf))) < length (fst fr) \<and> fst fr ! snd (snd (snd (snd kf))) = fst kf)
     \<and> distinct (map (\<lambda>kf. snd (snd (snd (snd kf)))) (snd fr))
     \<and> (\<forall>sid < length (fst fr). fst fr ! sid \<in> fst ` set (snd fr))"

text \<open>
  The records of the index stand in the order in which the sprites were created: the
  \<open>k\<close>-th record is stored under the position of the \<open>k\<close>-th sprite and refers to it.
\<close>

definition records_in_order :: "scene \<Rightarrow> bool" where
  "records_in_order s \<longleftrightarrow>
     map fst (imageData s) = map position (sprites s)
     \<and> map (\<lambda>ke. sprite (snd ke)) (imageData s) = [0..<length (sprites s)]"

text \<open>Visibility of the sprite of the record at place \<open>i\<close> of the index.\<close>

definition entry_visible :: "scene \<Rightarrow> nat \<Rightarrow> bool" where
  "entry_visible s i = visible (sprites s ! sprite (snd (imageData s ! i)))"

definition visible_records :: "scene \<Rightarrow> nat set" where
  "visible_records s = {i. i < length (imageData s) \<and> entry_visible s i}"

definition vis_upd ::
  "(position_key \<times> image_entry) list \<Rightarrow> real \<Rightarrow> nat \<Rightarrow> sprite_object list \<Rightarrow> sprite_object list" where
  "vis_upd xs t i sps =
     sps[sprite (snd (xs ! i)) :=
           (sps ! sprite (snd (xs ! i)))\<lparr>visible := (confidence (snd (xs ! i)) \<ge> t)\<rparr>]"

text \<open>
  The resolution state of a record, read from its two flags; the distance \<open>updateLOD\<close>
  computes for it; the name under which its high-quality fetch is pending.
\<close>

datatype resolution = Placeholder | Standard | High

definition resolution_state :: "image_entry \<Rightarrow> resolution" where
  "resolution_state e =
     (if highQualityLoaded e then High else if loaded e then Standard else Placeholder)"

definition camera_distance :: "vec3 \<Rightarrow> scene \<Rightarrow> nat \<Rightarrow> real" where
  "camera_distance camera_position s i =
     distanceTo camera_position (key_numbers (fst (imageData s ! i)))"

definition hq_name :: "scene \<Rightarrow> nat \<Rightarrow> string" where
  "hq_name s i = ''hq_'' @ filename (snd (imageData s ! i))"

text \<open>What one step of the loop of \<open>updateLOD\<close> leaves alone.\<close>

definition lod_stable :: "scene \<Rightarrow> scene \<Rightarrow> bool" where
  "lod_stable s s' \<longleftrightarrow>
     (\<forall>k. visible (sprites s' ! k) = visible (sprites s ! k))
     \<and> length (imageData s') = length (imageData s)
     \<and> (\<forall>k. fst (imageData s' ! k) = fst (imageData s ! k)
            \<and> filename (snd (imageData s' ! k)) = filename (snd (imageData s ! k))
            \<and> sprite (snd (imageData s' ! k)) = sprite (snd (imageData s ! k)))
     \<and> highResTextures s' = highResTextures s
     \<and> set (pendingTextures s) \<subseteq> set (pendingTextures s')"

text \<open>
  The texture caches never hold the placeholder; a sprite shows a loaded texture.
\<close>

definition cache_ok :: "scene \<Rightarrow> bool" where
  "cache_ok s \<longleftrightarrow> (\<forall>name. highResTextures s name \<noteq> Some placeholderTexture)"

definition shows_loaded :: "nat \<Rightarrow> scene \<Rightarrow> bool" where
  "shows_loaded sid s \<longleftrightarrow>
     cache_ok s \<and> sid < length (sprites s) \<and> material_map (sprites s ! sid) \<noteq> placeholderTexture"







text \<open>The time of the most recent \<open>end\<close> event of the controls, if there is one.\<close>

fun note_end :: "rotation_event \<Rightarrow> int option \<Rightarrow> int option" where
  "note_end (ControlsEnd now) previous = Some now"
| "note_end other previous = previous"

definition last_interaction_end :: "rotation_event list \<Rightarrow> int option" where
  "last_interaction_end events = fold note_end events None"

text \<open>
  The layout as the anchors see it: the offset of a grid cell from the anchor of its
  category (the elevation by confidence included), and the positions of the images of the
  category of a sorted index, each the anchor of that index plus the offset of its cell.
\<close>

definition vec_add :: "vec3 \<Rightarrow> vec3 \<Rightarrow> vec3" where
  "vec_add a b = (case a of (ax, ay, az) \<Rightarrow> case b of (bx, by, bz) \<Rightarrow> (ax + bx, ay + by, az + bz))"

definition grid_offset :: "nat \<Rightarrow> nat \<Rightarrow> nat \<Rightarrow> real \<Rightarrow> vec3" where
  "grid_offset cols n i conf =
     (real (i mod cols) * SPACING - (real cols * SPACING) / 2,
      conf * 30,
      of_int \<lfloor>real i / real cols\<rfloor> * SPACING - (of_int \<lfloor>real n / real cols\<rfloor> * SPACING) / 2)"

definition anchored_grid :: "nat \<Rightarrow> nat \<Rightarrow> classified list \<Rightarrow> vec3 list" where
  "anchored_grid index tot images =
     map (\<lambda>item. vec_add (category_anchor index tot)
                  (grid_offset (grid_cols (length images)) (length images) (fst item) (snd (snd item))))
       (enumerate 0 images)"

text \<open>
  Whether an interaction is in progress: a \<open>start\<close> event of the controls has not been
  followed by an \<open>end\<close> event yet.
\<close>

fun note_drag :: "rotation_event \<Rightarrow> bool \<Rightarrow> bool" where
  "note_drag (ControlsStart now) previous = True"
| "note_drag (ControlsEnd now) previous = False"
| "note_drag other previous = previous"

definition dragging :: "rotation_event list \<Rightarrow> bool" where
  "dragging events = fold note_drag events False"

section \<open>Concrete inputs\<close>

text \<open>
  Category buckets, camera positions and scenes on which the theorems are tried: one
  category of three images, two categories, and one category of one image taken through
  its texture loads.
\<close>

definition example_bucket :: categories where
  "example_bucket = [(''poster'', [(''a.jpg'', 1/5), (''b.jpg'', 3/5), (''c.jpg'', 9/10)])]"

definition two_buckets :: categories where
  "two_buckets =
     [(''book jacket'', [(''a.jpg'', 1/5)]), (''poster'', [(''b.jpg'', 3/5), (''c.jpg'', 9/10)])]"

definition example_layout :: scene where
  "example_layout = createParticleGroups example_bucket initial_scene"

definition example_later :: scene where
  "example_later =
     run [LoadSucceeds 0, CameraChange (0, 18, 0), ConfidenceSlider (1/2)] example_layout"

definition example_single :: categories where
  "example_single = [(''poster'', [(''a.jpg'', 1/2)])]"

definition near_camera :: vec3 where
  "near_camera = (- 5, 15, 5)"

definition far_camera :: vec3 where
  "far_camera = (- 5, 15, 95)"

definition standard_scene :: scene where
  "standard_scene = run [LoadSucceeds 0] (createParticleGroups example_single initial_scene)"

definition high_scene :: scene where
  "high_scene = run [CameraChange near_camera, LoadSucceeds 0] standard_scene"

definition uncached_high_scene :: scene where
  "uncached_high_scene =
     run [LoadFails 0, CameraChange near_camera, LoadSucceeds 0]
       (createParticleGroups example_single initial_scene)"




definition always_rejects :: "nat \<Rightarrow> outcome" where
  "always_rejects i = ClassifyRejected"

definition never_loads :: "nat \<Rightarrow> outcome" where
  "never_loads i = LoadError"

text \<open>
  Two sequences of events with their clock values. In the first the user starts a first
  drag one second after the layout and one frame is drawn 16 ms later. In the second that
  drag ends, the warm-up timer fires, and the user starts another drag 28 seconds later,
  again followed by one frame.
\<close>

definition first_drag_start :: "rotation_event list" where
  "first_drag_start = [LayoutDone 1700000000000, ControlsStart 1700000001000]"

definition first_drag_trace :: "rotation_event list" where
  "first_drag_trace = first_drag_start @ [AnimateFrame 1700000001016]"

definition second_drag_start :: "rotation_event list" where
  "second_drag_start =
     first_drag_trace @
     [ControlsEnd 1700000002000, WarmupTimeout 1700000008000, ControlsStart 1700000030000]"

definition second_drag_trace :: "rotation_event list" where
  "second_drag_trace = second_drag_start @ [AnimateFrame 1700000030016]"

section \<open>Integer polynomials\<close>

text \<open>
  For the positions of different categories the proofs need that the cosine of a positive
  integer is irrational. The argument works with polynomials with integer coefficients,
  given by the list of their coefficients from the constant one upwards: their value at a
  real number, their coefficients, sum, product, powers and derivative, the alternating
  sum of the even (and of the odd) derivatives, and the polynomials
  \<open>y ^ (2N + 2) * (s * s - y * y) ^ N\<close> and \<open>x ^ N * (s - x) ^ (2N + 2) * (2s - x) ^ N\<close> with the
  integers the alternating sums take at 0.
\<close>

primrec peval :: "int list \<Rightarrow> real \<Rightarrow> real" where
  "peval [] x = 0"
| "peval (a # p) x = of_int a + x * peval p x"

fun coeff :: "int list \<Rightarrow> nat \<Rightarrow> int" where
  "coeff [] j = 0"
| "coeff (a # p) 0 = a"
| "coeff (a # p) (Suc j) = coeff p j"

fun padd :: "int list \<Rightarrow> int list \<Rightarrow> int list" where
  "padd [] q = q"
| "padd (a # p) [] = a # p"
| "padd (a # p) (b # q) = (a + b) # padd p q"

definition smult :: "int \<Rightarrow> int list \<Rightarrow> int list" where
  "smult c p = map (\<lambda>a. c * a) p"

primrec pmul :: "int list \<Rightarrow> int list \<Rightarrow> int list" where
  "pmul [] q = []"
| "pmul (a # p) q = padd (smult a q) (0 # pmul p q)"

primrec ppow :: "int list \<Rightarrow> nat \<Rightarrow> int list" where
  "ppow p 0 = [1]"
| "ppow p (Suc n) = pmul p (ppow p n)"

primrec pderiv :: "int list \<Rightarrow> int list" where
  "pderiv [] = []"
| "pderiv (a # p) = padd p (0 # pderiv p)"

definition Gsum :: "nat \<Rightarrow> int list \<Rightarrow> real \<Rightarrow> real" where
  "Gsum K p y = (\<Sum>i<K. (- 1) ^ i * peval ((pderiv ^^ (2 * i)) p) y)"

definition Gsum' :: "nat \<Rightarrow> int list \<Rightarrow> real \<Rightarrow> real" where
  "Gsum' K p y = (\<Sum>i<K. (- 1) ^ i * peval ((pderiv ^^ (2 * i + 1)) p) y)"

definition gpoly :: "nat \<Rightarrow> nat \<Rightarrow> int list" where
  "gpoly s N = replicate (2 * N + 2) 0 @ ppow [int s * int s, 0, - 1] N"

definition hpoly :: "nat \<Rightarrow> nat \<Rightarrow> int list" where
  "hpoly s N = pmul (ppow [int s, - 1] (2 * N + 2)) (ppow [2 * int s, - 1] N)"

definition fpoly :: "nat \<Rightarrow> nat \<Rightarrow> int list" where
  "fpoly s N = replicate N 0 @ hpoly s N"

definition Aint :: "nat \<Rightarrow> nat \<Rightarrow> int" where
  "Aint s N = (\<Sum>i<length (gpoly s N). (- 1) ^ i * (fact (2 * i) * coeff (fpoly s N) (2 * i)))"

definition Bint :: "nat \<Rightarrow> nat \<Rightarrow> int" where
  "Bint s N = (\<Sum>i<length (gpoly s N). (- 1) ^ i * (fact (2 * i) * coeff (gpoly s N) (2 * i)))"

section \<open>Properties of the spiral\<close>

lemma spiral_radius_eq: "spiral_radius index = 500 * sqrt (real index)"
  by (simp add: spiral_radius_def CATEGORY_SPACING_X_def SPACING_def)

lemma spiral_radius_strict_mono: "i < j \<Longrightarrow> spiral_radius i < spiral_radius j"
  by (simp add: spiral_radius_eq)

lemma spiral_norm_sq:
  "(case getSpiralCoordinates index tot of (x, z) \<Rightarrow> x * x + z * z) = 250000 * real index"
proof (cases "index = 0")
  case True
  then show ?thesis
    by (simp add: getSpiralCoordinates_def centerX_def centerZ_def)
next
  case False
  define r where "r = spiral_radius index"
  define a where "a = spiral_angle index"
  have r2: "r * r = 250000 * real index"
    by (simp add: r_def spiral_radius_eq)
  have "(r * r) * (cos a * cos a + sin a * sin a) = r * r"
    by simp
  then have "(r * cos a) * (r * cos a) + (r * sin a) * (r * sin a) = r * r"
    by (simp only: distrib_left mult_ac)
  then have "(r * cos a) * (r * cos a) + (r * sin a) * (r * sin a) = 250000 * real index"
    using r2 by simp
  with False show ?thesis
    by (simp add: getSpiralCoordinates_def centerX_def centerZ_def r_def a_def)
qed

lemma spiral_inj:
  assumes "getSpiralCoordinates i tot = getSpiralCoordinates j tot'"
  shows "i = j"
proof -
  have "250000 * real i = (case getSpiralCoordinates i tot of (x, z) \<Rightarrow> x * x + z * z)"
    by (simp only: spiral_norm_sq)
  also have "\<dots> = (case getSpiralCoordinates j tot' of (x, z) \<Rightarrow> x * x + z * z)"
    using assms by simp
  also have "\<dots> = 250000 * real j"
    by (simp only: spiral_norm_sq)
  finally show ?thesis by simp
qed

lemma sortedCategories_descending:
  assumes "i \<le> j" and "j < length (sortedCategories categoriesMap)"
  shows "length (snd (sortedCategories categoriesMap ! j))
           \<le> length (snd (sortedCategories categoriesMap ! i))"
proof -
  let ?key = "\<lambda>entry :: string \<times> classified list. - int (length (snd entry))"
  have "sorted (map ?key (sortedCategories categoriesMap))"
    unfolding sortedCategories_def by (rule sorted_sort_key)
  then have "map ?key (sortedCategories categoriesMap) ! i
               \<le> map ?key (sortedCategories categoriesMap) ! j"
    using assms by (simp only: sorted_iff_nth_mono length_map)
  with assms show ?thesis by simp
qed

section \<open>The position index after layout and after every event\<close>

lemma fold_invariant:
  assumes "\<And>x s. P s \<Longrightarrow> P (f x s)" and "P s"
  shows "P (fold f xs s)"
  using assms(2) by (induction xs arbitrary: s) (auto intro: assms(1))

lemma set_update_subset: "set (AList.update k v xs) \<subseteq> insert (k, v) (set xs)"
  by (induction xs) auto

lemma fst_set_update: "fst ` set (AList.update k v xs) = insert k (fst ` set xs)"
  by (induction xs) auto

lemma distinct_refs_update:
  assumes "distinct (map (\<lambda>ke. sprite (snd ke)) xs)"
    and "\<forall>ke \<in> set xs. sprite (snd ke) \<noteq> sprite v"
  shows "distinct (map (\<lambda>ke. sprite (snd ke)) (AList.update k v xs))"
  using assms
proof (induction xs)
  case Nil
  then show ?case by simp
next
  case (Cons a xs)
  have sub: "set (AList.update k v xs) \<subseteq> insert (k, v) (set xs)"
    by (rule set_update_subset)
  show ?case
  proof (cases "fst a = k")
    case True
    with Cons.prems show ?thesis by (cases a) (auto simp: image_iff)
  next
    case False
    with Cons sub show ?thesis by (cases a) (auto simp: image_iff)
  qed
qed

lemma place_image_sprites:
  "sprites (place_image cat anchor cols n (i, fname, conf) s) =
     sprites s @ [\<lparr>position = image_position anchor cols n i conf, visible = True,
                    material_map = placeholderTexture\<rparr>]"
  by (simp add: place_image_def Let_def split: prod.splits)

lemma place_image_imageData:
  "imageData (place_image cat anchor cols n (i, fname, conf) s) =
     AList.update (image_position anchor cols n i conf)
       \<lparr>filename = fname, category = cat, confidence = conf, sprite = length (sprites s),
        loaded = False, highQualityLoaded = False\<rparr> (imageData s)"
  by (simp add: place_image_def Let_def positionKey_def split: prod.splits)

lemma place_image_index_ok:
  assumes "index_ok s"
  shows "index_ok (place_image cat anchor cols n item s)"
proof -
  obtain i fname conf where item: "item = (i, fname, conf)" by (cases item) auto
  define p where "p = image_position anchor cols n i conf"
  define v where "v = \<lparr>filename = fname, category = cat, confidence = conf,
     sprite = length (sprites s), loaded = False, highQualityLoaded = False\<rparr>"
  define sp where "sp = \<lparr>position = p, visible = True, material_map = placeholderTexture\<rparr>"
  let ?s' = "place_image cat anchor cols n item s"
  have sp': "sprites ?s' = sprites s @ [sp]"
    by (simp add: item place_image_sprites sp_def p_def)
  have im': "imageData ?s' = AList.update p v (imageData s)"
    by (simp add: item place_image_imageData v_def p_def)
  have old: "\<forall>ke \<in> set (imageData s).
        sprite (snd ke) < length (sprites s) \<and> position (sprites s ! sprite (snd ke)) = fst ke"
    using assms by (simp add: index_ok_def)
  have a: "\<forall>ke \<in> set (imageData ?s').
        sprite (snd ke) < length (sprites ?s') \<and> position (sprites ?s' ! sprite (snd ke)) = fst ke"
  proof
    fix ke assume "ke \<in> set (imageData ?s')"
    then have "ke = (p, v) \<or> ke \<in> set (imageData s)"
      using set_update_subset [of p v "imageData s"] im' by auto
    then show "sprite (snd ke) < length (sprites ?s') \<and> position (sprites ?s' ! sprite (snd ke)) = fst ke"
    proof
      assume "ke = (p, v)"
      then show ?thesis by (simp add: sp' v_def sp_def)
    next
      assume "ke \<in> set (imageData s)"
      with old show ?thesis by (auto simp: sp' nth_append)
    qed
  qed
  have b: "distinct (map (\<lambda>ke. sprite (snd ke)) (imageData ?s'))"
    unfolding im'
  proof (rule distinct_refs_update)
    show "distinct (map (\<lambda>ke. sprite (snd ke)) (imageData s))"
      using assms by (simp add: index_ok_def)
    show "\<forall>ke \<in> set (imageData s). sprite (snd ke) \<noteq> sprite v"
      using old by (auto simp: v_def)
  qed
  have c: "\<forall>sid < length (sprites ?s'). position (sprites ?s' ! sid) \<in> fst ` set (imageData ?s')"
  proof (intro allI impI)
    fix sid assume "sid < length (sprites ?s')"
    then have "sid < length (sprites s) \<or> sid = length (sprites s)"
      by (auto simp: sp')
    then show "position (sprites ?s' ! sid) \<in> fst ` set (imageData ?s')"
    proof
      assume lt: "sid < length (sprites s)"
      then have "position (sprites s ! sid) \<in> fst ` set (imageData s)"
        using assms by (simp add: index_ok_def)
      with lt show ?thesis by (simp add: sp' im' nth_append fst_set_update)
    next
      assume "sid = length (sprites s)"
      then show ?thesis by (simp add: sp' im' fst_set_update sp_def)
    qed
  qed
  from a b c show ?thesis by (simp add: index_ok_def)
qed

lemma place_category_index_ok: "index_ok s \<Longrightarrow> index_ok (place_category tot entry s)"
  by (cases entry) (auto simp: place_category_def Let_def intro: fold_invariant place_image_index_ok)

lemma initial_index_ok: "index_ok initial_scene"
  by (simp add: index_ok_def initial_scene_def)

lemma layout_index_ok: "index_ok s \<Longrightarrow> index_ok (createParticleGroups categoriesMap s)"
  by (auto simp: createParticleGroups_def Let_def intro: fold_invariant place_category_index_ok)

lemma index_ok_frame: "index_ok s = frame_ok (frame s)"
  by (auto simp: index_ok_def frame_ok_def frame_def static_entry_def comp_def image_image)

lemma index_ok_cong: "frame s' = frame s \<Longrightarrow> index_ok s' = index_ok s"
  by (simp add: index_ok_frame)

lemma map_update_same:
  assumes "i < length xs \<Longrightarrow> f y = f (xs ! i)"
  shows "map f (xs[i := y]) = map f xs"
proof (cases "i < length xs")
  case True
  with assms show ?thesis by (simp add: map_update list_update_same_conv)
next
  case False
  then show ?thesis by (simp add: list_update_beyond)
qed

lemma static_entry_flags:
  "static_entry (e\<lparr>loaded := b\<rparr>) = static_entry e"
  "static_entry (e\<lparr>highQualityLoaded := b\<rparr>) = static_entry e"
  by (simp_all add: static_entry_def)

lemma map_alist_update_same:
  assumes "map_of xs k = Some e" and "h v = h e"
  shows "map (\<lambda>ke. (fst ke, h (snd ke))) (AList.update k v xs)
           = map (\<lambda>ke. (fst ke, h (snd ke))) xs"
  using assms by (induction xs) (auto split: if_splits)

lemma frame_standardLoaded: "frame (standardLoaded fname sid key s) = frame s"
  by (auto simp: standardLoaded_def frame_def Let_def static_entry_flags map_update_same
      map_alist_update_same [where h = static_entry] split: option.splits)

lemma frame_highLoaded: "frame (highLoaded fname sid i s) = frame s"
  by (simp add: highLoaded_def frame_def Let_def static_entry_flags map_update_same
      set_highQualityLoaded_def)

lemma frame_load_succeeds: "frame (load_succeeds r s) = frame s"
  by (cases r) (simp_all add: frame_standardLoaded frame_highLoaded)

lemma frame_load_fails: "frame (load_fails r s) = frame s"
  by (cases r) (simp_all add: frame_def)

lemma frame_lod_entry: "frame (lod_entry cam i s) = frame s"
  by (auto simp: lod_entry_def frame_def Let_def static_entry_flags map_update_same
      set_highQualityLoaded_def split: prod.splits option.splits)

lemma frame_updateLOD: "frame (updateLOD cam s) = frame s"
  unfolding updateLOD_def
  by (rule fold_invariant [where P = "\<lambda>t. frame t = frame s"]) (simp_all add: frame_lod_entry)

lemma frame_filter_entry: "frame (filter_entry t i s) = frame s"
  by (auto simp: filter_entry_def frame_def Let_def map_update_same split: prod.splits)

lemma frame_filter: "frame (filterImagesByConfidence t s) = frame s"
  unfolding filterImagesByConfidence_def
  by (rule fold_invariant [where P = "\<lambda>u. frame u = frame s"]) (simp_all add: frame_filter_entry)

lemma frame_loading_update: "frame (s\<lparr>loading := l\<rparr>) = frame s"
  by (simp add: frame_def)

lemma frame_step: "frame (step ev s) = frame s"
  by (cases ev) (simp_all add: frame_load_succeeds frame_load_fails frame_updateLOD frame_filter
      frame_loading_update)

lemma frame_run: "frame (run evs s) = frame s"
  unfolding run_def
  by (rule fold_invariant [where P = "\<lambda>u. frame u = frame s"]) (simp_all add: frame_step)

lemma run_index_ok: "index_ok s \<Longrightarrow> index_ok (run evs s)"
  by (simp add: index_ok_cong [OF frame_run])

lemma frame_positions:
  assumes "frame s' = frame s"
  shows "length (sprites s') = length (sprites s)"
    and "sid < length (sprites s) \<Longrightarrow> position (sprites s' ! sid) = position (sprites s ! sid)"
proof -
  have m: "map position (sprites s') = map position (sprites s)"
    using assms by (simp add: frame_def)
  then show l: "length (sprites s') = length (sprites s)"
    by (rule map_eq_imp_length_eq)
  assume "sid < length (sprites s)"
  with l have "map position (sprites s') ! sid = position (sprites s' ! sid)"
    "map position (sprites s) ! sid = position (sprites s ! sid)"
    by simp_all
  with m show "position (sprites s' ! sid) = position (sprites s ! sid)" by simp
qed

lemma map_of_static:
  "map_of (map (\<lambda>ke. (fst ke, static_entry (snd ke))) xs) k = map_option static_entry (map_of xs k)"
  by (induction xs) auto

lemma frame_lookup:
  assumes "frame s' = frame s"
  shows "map_option static_entry (map_of (imageData s') k)
           = map_option static_entry (map_of (imageData s) k)"
proof -
  have "map (\<lambda>ke. (fst ke, static_entry (snd ke))) (imageData s')
          = map (\<lambda>ke. (fst ke, static_entry (snd ke))) (imageData s)"
    using assms by (simp add: frame_def)
  then show ?thesis by (simp add: map_of_static [symmetric])
qed

lemma index_ok_lookup:
  assumes "index_ok s" and "sid < length (sprites s)"
  shows "\<exists>e. onClick_lookup s sid = Some e \<and> sprite e < length (sprites s)
            \<and> position (sprites s ! sprite e) = position (sprites s ! sid)"
proof -
  let ?k = "position (sprites s ! sid)"
  have "?k \<in> fst ` set (imageData s)"
    using assms by (simp add: index_ok_def)
  then obtain e where e: "map_of (imageData s) ?k = Some e"
    by (cases "map_of (imageData s) ?k") (auto simp: map_of_eq_None_iff)
  then have "(?k, e) \<in> set (imageData s)"
    by (rule map_of_SomeD)
  with assms(1) have "sprite e < length (sprites s) \<and> position (sprites s ! sprite e) = ?k"
    by (auto simp: index_ok_def)
  with e show ?thesis
    by (auto simp: onClick_lookup_def rebuilt_key_def positionKey_def split: prod.splits)
qed

section \<open>The concrete scenes, evaluated\<close>

lemma grid_cols_unique:
  assumes "n \<le> c * c" and "(c - 1) * (c - 1) < n"
  shows "grid_cols n = c"
proof -
  have c: "0 < c" using assms by (cases c) auto
  have "sqrt (real n) \<le> sqrt (real (c * c))"
    using assms(1) by (simp only: real_sqrt_le_iff of_nat_le_iff)
  then have up: "sqrt (real n) \<le> real c" by simp
  have "sqrt (real ((c - 1) * (c - 1))) < sqrt (real n)"
    using assms(2) by (simp only: real_sqrt_less_iff of_nat_less_iff)
  then have lo: "real (c - 1) < sqrt (real n)" by simp
  have "\<lceil>sqrt (real n)\<rceil> = int c"
    using up lo c by (intro ceiling_unique) (simp_all add: of_nat_diff)
  then show ?thesis by (simp add: grid_cols_def)
qed

lemma grid_cols_1: "grid_cols (Suc 0) = 1"
  by (simp add: grid_cols_def)

lemma grid_cols_3: "grid_cols (Suc (Suc (Suc 0))) = 2"
  using grid_cols_unique [of 3 2] by (simp add: numeral_3_eq_3)

lemmas layout_defs = createParticleGroups_def sortedCategories_def place_category_def
  place_image_def image_position_def getSpiralCoordinates_def initial_scene_def positionKey_def
  centerX_def centerZ_def categoryY_def SPACING_def Let_def

lemma example_scene:
  "createParticleGroups example_bucket initial_scene =
     \<lparr>sprites =
        [\<lparr>position = (- 10, 6, - 5), visible = True, material_map = placeholderTexture\<rparr>,
         \<lparr>position = (0, 18, - 5), visible = True, material_map = placeholderTexture\<rparr>,
         \<lparr>position = (- 10, 27, 5), visible = True, material_map = placeholderTexture\<rparr>],
      imageData =
        [((- 10, 6, - 5),
          \<lparr>filename = ''a.jpg'', category = ''poster'', confidence = 1 / 5, sprite = 0,
           loaded = False, highQualityLoaded = False\<rparr>),
         ((0, 18, - 5),
          \<lparr>filename = ''b.jpg'', category = ''poster'', confidence = 3 / 5, sprite = 1,
           loaded = False, highQualityLoaded = False\<rparr>),
         ((- 10, 27, 5),
          \<lparr>filename = ''c.jpg'', category = ''poster'', confidence = 9 / 10, sprite = 2,
           loaded = False, highQualityLoaded = False\<rparr>)],
      highResTextures = Map.empty,
      pendingTextures = [''a.jpg'', ''b.jpg'', ''c.jpg''],
      loading =
        [StandardLoad ''a.jpg'' 0 (- 10, 6, - 5),
         StandardLoad ''b.jpg'' 1 (0, 18, - 5),
         StandardLoad ''c.jpg'' 2 (- 10, 27, 5)]\<rparr>"
  by (simp add: layout_defs example_bucket_def grid_cols_3 numeral_2_eq_2)

lemma single_scene:
  "createParticleGroups example_single initial_scene =
     \<lparr>sprites = [\<lparr>position = (- 5, 15, - 5), visible = True, material_map = placeholderTexture\<rparr>],
      imageData = [((- 5, 15, - 5),
          \<lparr>filename = ''a.jpg'', category = ''poster'', confidence = 1 / 2, sprite = 0,
           loaded = False, highQualityLoaded = False\<rparr>)],
      highResTextures = Map.empty,
      pendingTextures = [''a.jpg''],
      loading = [StandardLoad ''a.jpg'' 0 (- 5, 15, - 5)]\<rparr>"
  by (simp add: layout_defs example_single_def grid_cols_1)

lemma sqrt_2500: "sqrt 2500 = 50"
  by (rule real_sqrt_unique) simp_all

lemma below_LOD: "sqrt x < LOD_DISTANCE \<longleftrightarrow> x < 2500"
  using real_sqrt_less_iff [of x 2500] by (simp add: sqrt_2500 LOD_DISTANCE_def)

lemma above_LOD: "LOD_DISTANCE \<le> sqrt x \<longleftrightarrow> 2500 \<le> x"
  using real_sqrt_le_iff [of 2500 x] by (simp add: sqrt_2500 LOD_DISTANCE_def)

lemmas event_defs = run_def remove_nth_def standardLoaded_def highLoaded_def
  set_highQualityLoaded_def updateLOD_def lod_entry_def distanceTo_def key_numbers_def
  below_LOD above_LOD LOD_DISTANCE_def Let_def

lemma standard_scene_eq:
  "standard_scene =
     \<lparr>sprites = [\<lparr>position = (- 5, 15, - 5), visible = True,
                  material_map = StandardTexture ''a.jpg''\<rparr>],
      imageData = [((- 5, 15, - 5),
          \<lparr>filename = ''a.jpg'', category = ''poster'', confidence = 1 / 2, sprite = 0,
           loaded = True, highQualityLoaded = False\<rparr>)],
      highResTextures = [''a.jpg'' \<mapsto> StandardTexture ''a.jpg''],
      pendingTextures = [],
      loading = []\<rparr>"
  by (simp add: standard_scene_def single_scene event_defs)

lemma near_update_eq:
  "updateLOD near_camera standard_scene =
     standard_scene\<lparr>pendingTextures := [''hq_a.jpg''], loading := [HighLoad ''a.jpg'' 0 0]\<rparr>"
  by (simp add: standard_scene_eq event_defs near_camera_def)

lemma high_scene_eq:
  "high_scene =
     \<lparr>sprites = [\<lparr>position = (- 5, 15, - 5), visible = True,
                  material_map = HighTexture ''a.jpg''\<rparr>],
      imageData = [((- 5, 15, - 5),
          \<lparr>filename = ''a.jpg'', category = ''poster'', confidence = 1 / 2, sprite = 0,
           loaded = True, highQualityLoaded = True\<rparr>)],
      highResTextures = [''a.jpg'' \<mapsto> StandardTexture ''a.jpg'',
                         ''hq_a.jpg'' \<mapsto> HighTexture ''a.jpg''],
      pendingTextures = [],
      loading = []\<rparr>"
  by (simp add: high_scene_def standard_scene_eq event_defs near_camera_def)

lemma far_update_eq:
  "updateLOD far_camera high_scene =
     high_scene\<lparr>sprites := [\<lparr>position = (- 5, 15, - 5), visible = True,
                  material_map = StandardTexture ''a.jpg''\<rparr>],
       imageData := [((- 5, 15, - 5),
          \<lparr>filename = ''a.jpg'', category = ''poster'', confidence = 1 / 2, sprite = 0,
           loaded = True, highQualityLoaded = False\<rparr>)]\<rparr>"
  by (simp add: high_scene_eq event_defs far_camera_def)

lemma uncached_high_scene_eq:
  "uncached_high_scene =
     \<lparr>sprites = [\<lparr>position = (- 5, 15, - 5), visible = True,
                  material_map = HighTexture ''a.jpg''\<rparr>],
      imageData = [((- 5, 15, - 5),
          \<lparr>filename = ''a.jpg'', category = ''poster'', confidence = 1 / 2, sprite = 0,
           loaded = False, highQualityLoaded = True\<rparr>)],
      highResTextures = [''hq_a.jpg'' \<mapsto> HighTexture ''a.jpg''],
      pendingTextures = [],
      loading = []\<rparr>"
  by (simp add: uncached_high_scene_def single_scene event_defs near_camera_def)

lemma uncached_far_update: "updateLOD far_camera uncached_high_scene = uncached_high_scene"
  by (simp add: uncached_high_scene_eq event_defs far_camera_def)

section \<open>The confidence filter\<close>

lemma filter_entry_vis_upd:
  "filter_entry t i s = s\<lparr>sprites := vis_upd (imageData s) t i (sprites s)\<rparr>"
  by (simp add: filter_entry_def vis_upd_def split: prod.splits)

lemma fold_filter_entry:
  "fold (filter_entry t) js s = s\<lparr>sprites := fold (vis_upd (imageData s) t) js (sprites s)\<rparr>"
  by (induction js arbitrary: s) (simp_all add: filter_entry_vis_upd)

lemma filter_sprites:
  "filterImagesByConfidence t s =
     s\<lparr>sprites := fold (vis_upd (imageData s) t) [0..<length (imageData s)] (sprites s)\<rparr>"
  by (simp add: filterImagesByConfidence_def fold_filter_entry)

lemma length_vis_fold: "length (fold (vis_upd xs t) js sps) = length sps"
  by (induction js arbitrary: sps) (simp_all add: vis_upd_def)

lemma vis_fold_other:
  "k \<notin> (\<lambda>i. sprite (snd (xs ! i))) ` set js \<Longrightarrow> fold (vis_upd xs t) js sps ! k = sps ! k"
  by (induction js arbitrary: sps) (simp_all add: vis_upd_def)

lemma vis_upd_nth_eq:
  "sprite (snd (xs ! a)) < length sps \<Longrightarrow>
     vis_upd xs t a sps ! sprite (snd (xs ! a))
       = (sps ! sprite (snd (xs ! a)))\<lparr>visible := (confidence (snd (xs ! a)) \<ge> t)\<rparr>"
  by (simp add: vis_upd_def)

lemma vis_upd_nth_neq:
  "k \<noteq> sprite (snd (xs ! a)) \<Longrightarrow> vis_upd xs t a sps ! k = sps ! k"
  by (simp add: vis_upd_def)

lemma length_vis_upd: "length (vis_upd xs t a sps) = length sps"
  by (simp add: vis_upd_def)

lemma vis_fold_hit:
  assumes "distinct (map (\<lambda>i. sprite (snd (xs ! i))) js)" and "j \<in> set js"
    and "sprite (snd (xs ! j)) < length sps"
  shows "fold (vis_upd xs t) js sps ! sprite (snd (xs ! j))
           = (sps ! sprite (snd (xs ! j)))\<lparr>visible := (confidence (snd (xs ! j)) \<ge> t)\<rparr>"
  using assms
proof (induction js arbitrary: sps)
  case Nil
  then show ?case by simp
next
  case (Cons a js)
  show ?case
  proof (cases "j = a")
    case True
    have "sprite (snd (xs ! a)) \<notin> (\<lambda>i. sprite (snd (xs ! i))) ` set js"
      using Cons.prems(1) by auto
    then have "fold (vis_upd xs t) js (vis_upd xs t a sps) ! sprite (snd (xs ! a))
                 = vis_upd xs t a sps ! sprite (snd (xs ! a))"
      by (rule vis_fold_other)
    with True Cons.prems(3) show ?thesis by (simp add: vis_upd_nth_eq)
  next
    case False
    with Cons.prems have j: "j \<in> set js"
      by auto
    have "sprite (snd (xs ! a)) \<notin> (\<lambda>i. sprite (snd (xs ! i))) ` set js"
      using Cons.prems(1) by auto
    with j have ne: "sprite (snd (xs ! j)) \<noteq> sprite (snd (xs ! a))"
      by (metis imageI)
    have "fold (vis_upd xs t) js (vis_upd xs t a sps) ! sprite (snd (xs ! j))
            = (vis_upd xs t a sps ! sprite (snd (xs ! j)))\<lparr>visible := (confidence (snd (xs ! j)) \<ge> t)\<rparr>"
      using Cons.prems j by (intro Cons.IH) (simp_all add: length_vis_upd)
    with ne show ?thesis by (simp add: vis_upd_nth_neq)
  qed
qed

lemma refs_upt:
  "map (\<lambda>i. sprite (snd (xs ! i))) [0..<length xs] = map (\<lambda>ke. sprite (snd ke)) xs"
  by (rule nth_equalityI) simp_all

lemma filter_imageData: "imageData (filterImagesByConfidence t s) = imageData s"
  by (simp add: filter_sprites)

lemma filter_hit:
  assumes "index_ok s" and "i < length (imageData s)"
  shows "sprites (filterImagesByConfidence t s) ! sprite (snd (imageData s ! i))
           = (sprites s ! sprite (snd (imageData s ! i)))
               \<lparr>visible := (confidence (snd (imageData s ! i)) \<ge> t)\<rparr>"
proof -
  have d: "distinct (map (\<lambda>i. sprite (snd (imageData s ! i))) [0..<length (imageData s)])"
    using assms(1) by (simp add: refs_upt index_ok_def)
  have r: "sprite (snd (imageData s ! i)) < length (sprites s)"
    using assms by (simp add: index_ok_def)
  show ?thesis
    using vis_fold_hit [where j = i and t = t, OF d _ r] assms(2) by (simp add: filter_sprites)
qed

lemma filter_visible_iff:
  assumes "index_ok s" and "i < length (imageData s)"
  shows "entry_visible (filterImagesByConfidence t s) i \<longleftrightarrow> confidence (snd (imageData s ! i)) \<ge> t"
  using filter_hit [OF assms, of t] by (simp add: entry_visible_def filter_imageData)

lemma filter_idem:
  assumes "index_ok s"
  shows "filterImagesByConfidence t (filterImagesByConfidence t s) = filterImagesByConfidence t s"
proof -
  let ?s1 = "filterImagesByConfidence t s"
  have ok1: "index_ok ?s1"
    using assms by (simp add: index_ok_cong [OF frame_filter])
  have len: "length (sprites ?s1) = length (sprites s)"
    by (simp add: filter_sprites length_vis_fold)
  have "sprites (filterImagesByConfidence t ?s1) = sprites ?s1"
  proof (rule nth_equalityI)
    show "length (sprites (filterImagesByConfidence t ?s1)) = length (sprites ?s1)"
      by (simp add: filter_sprites length_vis_fold)
  next
    fix k assume "k < length (sprites (filterImagesByConfidence t ?s1))"
    show "sprites (filterImagesByConfidence t ?s1) ! k = sprites ?s1 ! k"
    proof (cases "k \<in> (\<lambda>i. sprite (snd (imageData s ! i))) ` set [0..<length (imageData s)]")
      case True
      then obtain i where i: "i < length (imageData s)" and k: "k = sprite (snd (imageData s ! i))"
        by auto
      have "sprites (filterImagesByConfidence t ?s1) ! k
              = (sprites ?s1 ! k)\<lparr>visible := (confidence (snd (imageData s ! i)) \<ge> t)\<rparr>"
        using filter_hit [OF ok1, of i t] i k by (simp add: filter_imageData)
      also have "\<dots> = sprites ?s1 ! k"
        using filter_hit [OF assms i, of t] k by simp
      finally show ?thesis .
    next
      case False
      then show ?thesis
        using vis_fold_other [of k "imageData s" "[0..<length (imageData s)]" t]
        by (simp add: filter_sprites)
    qed
  qed
  then show ?thesis
    by (simp add: filter_sprites)
qed

text \<open>
  C5. In every scene reached from a layout, after the confidence filter has run with a
  threshold \<open>t\<close> (any real number, so every \<open>t\<close> in [0,1]), the sprite of a record is
  visible iff the record's confidence is at least \<open>t\<close>. Running the filter again with the
  same threshold changes nothing, and a higher threshold gives a visible set that is
  contained in the one of a lower threshold.
\<close>

theorem confidence_filter:
  "let s = run events (createParticleGroups categoriesMap initial_scene) in
     (\<forall>i < length (imageData s).
        entry_visible (filterImagesByConfidence t s) i
          \<longleftrightarrow> confidence (snd (imageData s ! i)) \<ge> t)
     \<and> imageData (filterImagesByConfidence t s) = imageData s
     \<and> filterImagesByConfidence t (filterImagesByConfidence t s) = filterImagesByConfidence t s
     \<and> (t1 \<le> t2 \<longrightarrow>
          visible_records (filterImagesByConfidence t2 s)
            \<subseteq> visible_records (filterImagesByConfidence t1 s))"
proof -
  define s where "s = run events (createParticleGroups categoriesMap initial_scene)"
  have ok: "index_ok s"
    unfolding s_def by (intro run_index_ok layout_index_ok initial_index_ok)
  have a: "\<forall>i < length (imageData s).
        entry_visible (filterImagesByConfidence t s) i
          \<longleftrightarrow> confidence (snd (imageData s ! i)) \<ge> t"
    using filter_visible_iff [OF ok] by blast
  have b: "imageData (filterImagesByConfidence t s) = imageData s"
    by (rule filter_imageData)
  have c: "filterImagesByConfidence t (filterImagesByConfidence t s) = filterImagesByConfidence t s"
    by (rule filter_idem [OF ok])
  have d: "t1 \<le> t2 \<longrightarrow>
          visible_records (filterImagesByConfidence t2 s)
            \<subseteq> visible_records (filterImagesByConfidence t1 s)"
    using filter_visible_iff [OF ok]
    by (auto simp: visible_records_def filter_imageData)
  from a b c d show ?thesis
    unfolding s_def [symmetric] Let_def by blast
qed

theorem confidence_filter_witness:
  "length (imageData example_layout) = 3
   \<and> \<not> entry_visible (filterImagesByConfidence (1/2) example_layout) 0
   \<and> entry_visible (filterImagesByConfidence (1/2) example_layout) 1
   \<and> entry_visible (filterImagesByConfidence (1/2) example_layout) 2
   \<and> (0::real) \<le> 1/2
   \<and> visible_records (filterImagesByConfidence (1/2) example_layout)
         \<subseteq> visible_records (filterImagesByConfidence 0 example_layout)"
proof -
  define s where "s = example_layout"
  have s: "s = run [] (createParticleGroups example_bucket initial_scene)"
    by (simp add: s_def example_layout_def run_def)
  have len: "length (imageData s) = 3"
    by (simp add: s_def example_layout_def example_scene)
  have c: "confidence (snd (imageData s ! 0)) = 1/5" "confidence (snd (imageData s ! 1)) = 3/5"
    "confidence (snd (imageData s ! 2)) = 9/10"
    by (simp_all add: s_def example_layout_def example_scene)
  have th: "(\<forall>i < length (imageData s).
        entry_visible (filterImagesByConfidence (1/2) s) i
          \<longleftrightarrow> confidence (snd (imageData s ! i)) \<ge> 1/2)
     \<and> ((0::real) \<le> 1/2 \<longrightarrow>
          visible_records (filterImagesByConfidence (1/2) s)
            \<subseteq> visible_records (filterImagesByConfidence 0 s))"
    using confidence_filter [where events = "[]" and categoriesMap = example_bucket
      and t = "1/2" and ?t1.0 = 0 and ?t2.0 = "1/2"]
    unfolding Let_def s [symmetric] by blast
  then have v: "i < 3 \<Longrightarrow> entry_visible (filterImagesByConfidence (1/2) s) i
          \<longleftrightarrow> confidence (snd (imageData s ! i)) \<ge> 1/2" for i
    using len by simp
  have "\<not> entry_visible (filterImagesByConfidence (1/2) s) 0"
    "entry_visible (filterImagesByConfidence (1/2) s) 1"
    "entry_visible (filterImagesByConfidence (1/2) s) 2"
    using v [of 0] v [of 1] v [of 2] c by simp_all
  with th len show ?thesis
    unfolding s_def by simp
qed

section \<open>The grid of one category\<close>

lemma grid_cols_pos: "0 < n \<Longrightarrow> 0 < grid_cols n"
proof -
  assume "0 < n"
  then have "0 < sqrt (real n)" by simp
  then have "0 < \<lceil>sqrt (real n)\<rceil>" by (simp add: ceiling_less_iff)
  then show ?thesis by (simp add: grid_cols_def)
qed

lemma image_position_inj:
  assumes "0 < cols"
    and "image_position anchor cols n i conf = image_position anchor cols n j conf'"
  shows "i = j"
proof -
  obtain ax az where a: "anchor = (ax, az)" by (cases anchor)
  from assms(2) have x: "real (i mod cols) = real (j mod cols)"
    and z: "real_of_int \<lfloor>real i / real cols\<rfloor> = real_of_int \<lfloor>real j / real cols\<rfloor>"
    by (simp_all add: a image_position_def Let_def SPACING_def)
  from x have m: "i mod cols = j mod cols" by simp
  from z have "\<lfloor>real i / real cols\<rfloor> = \<lfloor>real j / real cols\<rfloor>" by simp
  then have "int (i div cols) = int (j div cols)"
    by (simp only: floor_divide_of_nat_eq)
  then have d: "i div cols = j div cols" by simp
  have "i = cols * (i div cols) + i mod cols" by simp
  also have "\<dots> = cols * (j div cols) + j mod cols" using m d by simp
  also have "\<dots> = j" by simp
  finally show ?thesis .
qed


lemma fold_place_image_sprites:
  "sprites (fold (place_image cat anchor cols n) items s) =
     sprites s @
       map (\<lambda>item. \<lparr>position = image_position anchor cols n (fst item) (snd (snd item)),
                      visible = True, material_map = placeholderTexture\<rparr>) items"
proof (induction items arbitrary: s)
  case Nil
  then show ?case by simp
next
  case (Cons item items)
  obtain i fname conf where item: "item = (i, fname, conf)" by (cases item) auto
  show ?case
    by (simp add: Cons.IH item place_image_sprites)
qed

text \<open>
  Within one category no two images get the same grid cell, so an input of a single
  category gives its images pairwise distinct positions, whatever their confidences.
\<close>

lemma one_category_positions_distinct:
  "distinct (map position (sprites (createParticleGroups [(cat, images)] initial_scene)))"
proof (cases "images = []")
  case True
  then show ?thesis
    by (simp add: createParticleGroups_def sortedCategories_def place_category_def
        initial_scene_def Let_def)
next
  case False
  define cols where "cols = grid_cols (length images)"
  define anchor where "anchor = getSpiralCoordinates 0 1"
  let ?pos = "\<lambda>item :: nat \<times> classified.
      image_position anchor cols (length images) (fst item) (snd (snd item))"
  have cols: "0 < cols"
    using False by (simp add: cols_def grid_cols_pos)
  have "map position (sprites (createParticleGroups [(cat, images)] initial_scene))
          = map ?pos (enumerate 0 images)"
    by (simp add: createParticleGroups_def sortedCategories_def place_category_def Let_def
        fold_place_image_sprites initial_scene_def cols_def anchor_def comp_def)
  moreover have "distinct (map ?pos (enumerate 0 images))"
  proof (rule distinct_map [THEN iffD2], intro conjI)
    show "distinct (enumerate 0 images)"
      by (simp add: distinct_enumerate)
    show "inj_on ?pos (set (enumerate 0 images))"
    proof (rule inj_onI)
      fix a b assume a: "a \<in> set (enumerate 0 images)" and b: "b \<in> set (enumerate 0 images)"
        and eq: "?pos a = ?pos b"
      from eq have "fst a = fst b"
        by (rule image_position_inj [OF cols])
      moreover from a b have "snd a = images ! fst a" "snd b = images ! fst b"
        by (auto simp: in_set_enumerate_eq)
      ultimately show "a = b"
        by (simp add: prod_eq_iff)
    qed
  qed
  ultimately show ?thesis by simp
qed

section \<open>The anchors of the layout\<close>

lemma image_position_anchor:
  "image_position (getSpiralCoordinates index tot) cols n i conf =
     vec_add (category_anchor index tot) (grid_offset cols n i conf)"
  by (simp add: image_position_def vec_add_def category_anchor_def grid_offset_def categoryY_def
      Let_def split: prod.splits)

lemma place_category_positions:
  "map position (sprites (place_category tot (index, cat, images) s)) =
     map position (sprites s) @ anchored_grid index tot images"
  by (simp add: place_category_def Let_def fold_place_image_sprites anchored_grid_def
      image_position_anchor comp_def)

lemma fold_place_category_positions:
  "map position (sprites (fold (place_category tot) entries s)) =
     map position (sprites s)
       @ concat (map (\<lambda>entry. anchored_grid (fst entry) tot (snd (snd entry))) entries)"
proof (induction entries arbitrary: s)
  case Nil
  then show ?case by simp
next
  case (Cons entry entries)
  obtain index cat images where e: "entry = (index, cat, images)" by (cases entry) auto
  show ?case
    by (simp add: Cons.IH e place_category_positions)
qed

lemma layout_positions:
  "map position (sprites (createParticleGroups categoriesMap initial_scene)) =
     concat (map (\<lambda>entry. anchored_grid (fst entry) (length categoriesMap) (snd (snd entry)))
               (enumerate 0 (sortedCategories categoriesMap)))"
  by (simp add: createParticleGroups_def Let_def fold_place_category_positions initial_scene_def
      sortedCategories_def)

lemma sortedCategories_keeps:
  "set (sortedCategories categoriesMap) = set categoriesMap"
  "length (sortedCategories categoriesMap) = length categoriesMap"
  "filter (\<lambda>entry. length (snd entry) = n) (sortedCategories categoriesMap)
     = filter (\<lambda>entry. length (snd entry) = n) categoriesMap"
proof -
  show "set (sortedCategories categoriesMap) = set categoriesMap"
    "length (sortedCategories categoriesMap) = length categoriesMap"
    by (simp_all add: sortedCategories_def)
  have "filter (\<lambda>entry. - int (length (snd entry)) = - int n) (sortedCategories categoriesMap)
     = filter (\<lambda>entry. - int (length (snd entry)) = - int n) categoriesMap"
    unfolding sortedCategories_def by (rule sort_key_stable)
  then show "filter (\<lambda>entry. length (snd entry) = n) (sortedCategories categoriesMap)
     = filter (\<lambda>entry. length (snd entry) = n) categoriesMap"
    by simp
qed


lemma grid_cols_2: "grid_cols (Suc (Suc 0)) = 2"
  using grid_cols_unique [of 2 2] by (simp add: numeral_2_eq_2)

lemma two_buckets_sorted:
  "sortedCategories two_buckets =
     [(''poster'', [(''b.jpg'', 3/5), (''c.jpg'', 9/10)]), (''book jacket'', [(''a.jpg'', 1/5)])]"
  by (simp add: sortedCategories_def two_buckets_def)

text \<open>
  C6. The categories are taken by descending number of images: the sorted list holds the
  same categories, those of equal size in the order of the map, so the category of sorted
  index 0 is a largest one. The layout gives the category of sorted index \<open>k\<close> the
  anchor of \<open>k\<close>: its images are created in order at that anchor plus the offset of
  their grid cell. The anchor of index 0 is the origin; the anchor of every later index is
  origin + (radius * cos angle, 0, radius * sin angle), where angle = index * 0.5 and
  radius = sqrt index * 500; the radius grows strictly with the index, and two different
  indices never get the same anchor.
\<close>

theorem spiral_anchor_formula:
  "set (sortedCategories categoriesMap) = set categoriesMap
   \<and> length (sortedCategories categoriesMap) = length categoriesMap
   \<and> filter (\<lambda>entry. length (snd entry) = n) (sortedCategories categoriesMap)
       = filter (\<lambda>entry. length (snd entry) = n) categoriesMap
   \<and> (i \<le> j \<and> j < length (sortedCategories categoriesMap) \<longrightarrow>
      length (snd (sortedCategories categoriesMap ! j))
        \<le> length (snd (sortedCategories categoriesMap ! i)))
   \<and> map position (sprites (createParticleGroups categoriesMap initial_scene)) =
       concat (map (\<lambda>entry. anchored_grid (fst entry) (length categoriesMap) (snd (snd entry)))
                 (enumerate 0 (sortedCategories categoriesMap)))
   \<and> category_anchor 0 tot = (0, 0, 0)
   \<and> (1 \<le> index \<longrightarrow>
        category_anchor index tot =
          (0 + (sqrt (real index) * 500) * cos (real index * 0.5), 0,
           0 + (sqrt (real index) * 500) * sin (real index * 0.5)))
   \<and> (1 \<le> i \<and> i < j \<longrightarrow> spiral_radius i < spiral_radius j)
   \<and> (i \<noteq> j \<longrightarrow> category_anchor i tot \<noteq> category_anchor j tot)"
proof -
  have s: "i \<le> j \<and> j < length (sortedCategories categoriesMap) \<longrightarrow>
      length (snd (sortedCategories categoriesMap ! j))
        \<le> length (snd (sortedCategories categoriesMap ! i))"
    using sortedCategories_descending by blast
  have a: "category_anchor 0 tot = (0, 0, 0)"
    by (simp add: category_anchor_def getSpiralCoordinates_def centerX_def centerZ_def
        categoryY_def)
  have b: "1 \<le> index \<longrightarrow>
        category_anchor index tot =
          (0 + (sqrt (real index) * 500) * cos (real index * 0.5), 0,
           0 + (sqrt (real index) * 500) * sin (real index * 0.5))"
    by (simp add: category_anchor_def getSpiralCoordinates_def centerX_def centerZ_def
        categoryY_def spiral_radius_eq spiral_angle_def)
  have c: "1 \<le> i \<and> i < j \<longrightarrow> spiral_radius i < spiral_radius j"
    using spiral_radius_strict_mono by blast
  have d: "i \<noteq> j \<longrightarrow> category_anchor i tot \<noteq> category_anchor j tot"
  proof
    assume ne: "i \<noteq> j"
    show "category_anchor i tot \<noteq> category_anchor j tot"
    proof
      assume "category_anchor i tot = category_anchor j tot"
      then have "getSpiralCoordinates i tot = getSpiralCoordinates j tot"
        by (simp add: category_anchor_def split: prod.splits)
      then have "i = j" by (rule spiral_inj)
      with ne show False by simp
    qed
  qed
  note k = sortedCategories_keeps(1,2) [where categoriesMap = categoriesMap]
    sortedCategories_keeps(3) [where categoriesMap = categoriesMap and n = n]
  note l = layout_positions [where categoriesMap = categoriesMap]
  from k s l a b c d show ?thesis
    by (intro conjI)
qed

theorem spiral_anchor_formula_witness:
  "(0::nat) \<le> 1 \<and> 1 < length (sortedCategories two_buckets)
   \<and> length (snd (sortedCategories two_buckets ! 1))
        \<le> length (snd (sortedCategories two_buckets ! 0))
   \<and> fst (sortedCategories two_buckets ! 0) = ''poster''
   \<and> map position (sprites (createParticleGroups two_buckets initial_scene))
        = [(- 10, 18, - 5), (0, 27, - 5), (500 * cos (1/2) - 5, 6, 500 * sin (1/2) - 5)]
   \<and> category_anchor 0 2 = (0, 0, 0)
   \<and> category_anchor 4 5 = (1000 * cos 2, 0, 1000 * sin 2)
   \<and> spiral_radius 1 < spiral_radius 4
   \<and> category_anchor 1 5 \<noteq> category_anchor 4 5"
proof -
  have l: "(0::nat) \<le> 1" "1 < length (sortedCategories two_buckets)"
    "fst (sortedCategories two_buckets ! 0) = ''poster''"
    by (simp_all add: two_buckets_sorted)
  have "length (snd (sortedCategories two_buckets ! 1))
        \<le> length (snd (sortedCategories two_buckets ! 0))
      \<and> category_anchor 0 2 = (0, 0, 0)"
    using spiral_anchor_formula [where i = 0 and j = 1 and categoriesMap = two_buckets
        and tot = 2] l
    by blast
  moreover have "map position (sprites (createParticleGroups two_buckets initial_scene)) =
       concat (map (\<lambda>entry. anchored_grid (fst entry) (length two_buckets) (snd (snd entry)))
                 (enumerate 0 (sortedCategories two_buckets)))"
    using spiral_anchor_formula [where categoriesMap = two_buckets] by blast
  then have "map position (sprites (createParticleGroups two_buckets initial_scene))
        = [(- 10, 18, - 5), (0, 27, - 5), (500 * cos (1/2) - 5, 6, 500 * sin (1/2) - 5)]"
    unfolding two_buckets_sorted
    by (simp add: anchored_grid_def vec_add_def grid_offset_def
        category_anchor_def getSpiralCoordinates_def grid_cols_1 grid_cols_2 spiral_radius_eq
        spiral_angle_def centerX_def centerZ_def categoryY_def SPACING_def)
  moreover have "category_anchor 4 5 = (1000 * cos 2, 0, 1000 * sin 2)"
    using spiral_anchor_formula [where index = 4 and tot = 5] by simp
  moreover have "spiral_radius 1 < spiral_radius 4
      \<and> category_anchor 1 5 \<noteq> category_anchor 4 5"
    using spiral_anchor_formula [where i = 1 and j = 4 and tot = 5]
    by (simp (no_asm_use)) blast
  ultimately show ?thesis using l by blast
qed

section \<open>The cosine of a positive integer is irrational\<close>

text \<open>
  Suppose \<open>cos s = c / d\<close> for a positive integer \<open>s\<close>. For the polynomial
  \<open>g(y) = y ^ (2N + 2) * (s * s - y * y) ^ N\<close> and the alternating sum \<open>G\<close> of its even
  derivatives, \<open>G(y) * cos (s - y) + G'(y) * sin (s - y)\<close> has the derivative
  \<open>g(y) * sin (s - y)\<close>, so by the mean value theorem \<open>G(s) - G(0) * cos s\<close> is at most
  \<open>s ^ (4N + 3)\<close> in absolute value. Both \<open>G(s)\<close> and \<open>G(0)\<close> are integers, and when \<open>N + 1\<close>
  is coprime to \<open>2 * s * d\<close> the integer \<open>d * G(s) - c * G(0)\<close> is a multiple of \<open>N!\<close>
  other than 0. For large \<open>N\<close> this contradicts the bound.
\<close>

lemma peval_padd: "peval (padd p q) x = peval p x + peval q x"
  by (induction p q rule: padd.induct) (simp_all add: algebra_simps)

lemma peval_smult: "peval (smult c p) x = of_int c * peval p x"
  by (induction p) (simp_all add: smult_def algebra_simps)

lemma peval_pmul: "peval (pmul p q) x = peval p x * peval q x"
  by (induction p) (simp_all add: peval_padd peval_smult algebra_simps)

lemma peval_ppow: "peval (ppow p n) x = peval p x ^ n"
  by (induction n) (simp_all add: peval_pmul)

lemma peval_shift: "peval (replicate k 0 @ p) x = x ^ k * peval p x"
  by (induction k) simp_all

lemma coeff_padd: "coeff (padd p q) j = coeff p j + coeff q j"
proof (induction p q arbitrary: j rule: padd.induct)
  case (3 a p b q)
  then show ?case by (cases j) simp_all
qed simp_all

lemma coeff_beyond: "length p \<le> j \<Longrightarrow> coeff p j = 0"
  by (induction p j rule: coeff.induct) simp_all

lemma coeff_shift: "coeff (replicate k 0 @ p) j = (if j < k then 0 else coeff p (j - k))"
proof (induction k arbitrary: j)
  case 0
  then show ?case by simp
next
  case (Suc k)
  then show ?case by (cases j) simp_all
qed

lemma peval_0: "peval p 0 = of_int (coeff p 0)"
  by (cases p) simp_all

lemma coeff_pderiv: "coeff (pderiv p) j = int (Suc j) * coeff p (Suc j)"
proof (induction p arbitrary: j)
  case Nil
  then show ?case by simp
next
  case (Cons a p)
  show ?case
  proof (cases j)
    case 0
    then show ?thesis by (simp add: coeff_padd)
  next
    case (Suc i)
    then show ?thesis by (simp add: coeff_padd Cons.IH algebra_simps)
  qed
qed

lemma coeff_pderiv_funpow:
  "coeff ((pderiv ^^ k) p) j * fact j = fact (j + k) * coeff p (j + k)"
proof (induction k arbitrary: j)
  case 0
  then show ?case by (simp add: mult.commute)
next
  case (Suc k)
  have "coeff ((pderiv ^^ Suc k) p) j * fact j
          = int (Suc j) * coeff ((pderiv ^^ k) p) (Suc j) * fact j"
    by (simp add: coeff_pderiv)
  also have "\<dots> = coeff ((pderiv ^^ k) p) (Suc j) * fact (Suc j)"
    by (simp add: algebra_simps)
  also have "\<dots> = fact (Suc j + k) * coeff p (Suc j + k)"
    by (rule Suc.IH)
  finally show ?case by simp
qed

lemma coeff_funpow_0: "coeff ((pderiv ^^ k) p) 0 = fact k * coeff p k"
  using coeff_pderiv_funpow [of k p 0] by simp

lemma peval_all_zero: "(\<And>j. coeff p j = 0) \<Longrightarrow> peval p x = 0"
proof (induction p)
  case Nil
  then show ?case by simp
next
  case (Cons a p)
  have "a = 0" using Cons.prems [of 0] by simp
  moreover have "peval p x = 0"
  proof (rule Cons.IH)
    fix j show "coeff p j = 0" using Cons.prems [of "Suc j"] by simp
  qed
  ultimately show ?case by simp
qed

lemma peval_funpow_beyond:
  assumes "length p \<le> k"
  shows "peval ((pderiv ^^ k) p) x = 0"
proof (rule peval_all_zero)
  fix j
  have "coeff ((pderiv ^^ k) p) j * fact j = fact (j + k) * coeff p (j + k)"
    by (rule coeff_pderiv_funpow)
  also have "\<dots> = 0" using assms by (simp add: coeff_beyond)
  finally show "coeff ((pderiv ^^ k) p) j = 0" by simp
qed

lemma DERIV_peval: "DERIV (peval p) x :> peval (pderiv p) x"
proof (induction p arbitrary: x)
  case Nil
  then show ?case by simp
next
  case (Cons a p)
  have "DERIV (\<lambda>x. of_int a + x * peval p x) x :> peval p x + x * peval (pderiv p) x"
    by (auto intro!: derivative_eq_intros Cons.IH)
  then show ?case by (simp add: peval_padd)
qed

lemma DERIV_peval_reflect:
  "DERIV (\<lambda>x. peval q (a - x)) x :> - peval (pderiv q) (a - x)"
proof -
  have "DERIV (\<lambda>x. a - x) x :> - 1"
    by (auto intro!: derivative_eq_intros)
  moreover have "DERIV (peval q) (a - x) :> peval (pderiv q) (a - x)"
    by (rule DERIV_peval)
  ultimately have "DERIV (\<lambda>x. peval q (a - x)) x :> peval (pderiv q) (a - x) * (- 1)"
    by (rule DERIV_chain')
  then show ?thesis by simp
qed

lemma reflect_pderiv:
  assumes "\<And>x. peval p x = c * peval q (a - x)"
  shows "peval (pderiv p) x = - c * peval (pderiv q) (a - x)"
proof -
  have "DERIV (\<lambda>x. c * peval q (a - x)) x :> c * (- peval (pderiv q) (a - x))"
    by (rule DERIV_cmult) (rule DERIV_peval_reflect)
  then have "DERIV (\<lambda>x. c * peval q (a - x)) x :> - c * peval (pderiv q) (a - x)"
    by simp
  moreover have "(\<lambda>x. c * peval q (a - x)) = peval p"
    using assms by auto
  ultimately have "DERIV (peval p) x :> - c * peval (pderiv q) (a - x)"
    using \<open>DERIV (\<lambda>x. c * peval q (a - x)) x :> - c * peval (pderiv q) (a - x)\<close> by simp
  moreover have "DERIV (peval p) x :> peval (pderiv p) x"
    by (rule DERIV_peval)
  ultimately show ?thesis by (rule DERIV_unique [symmetric])
qed

lemma reflect_funpow:
  assumes "\<And>x. peval p x = peval q (a - x)"
  shows "peval ((pderiv ^^ k) p) x = (- 1) ^ k * peval ((pderiv ^^ k) q) (a - x)"
proof (induction k arbitrary: x)
  case 0
  then show ?case using assms by simp
next
  case (Suc k)
  have "peval (pderiv ((pderiv ^^ k) p)) x
          = - ((- 1) ^ k) * peval (pderiv ((pderiv ^^ k) q)) (a - x)"
    by (rule reflect_pderiv) (rule Suc.IH)
  then show ?case by simp
qed

section \<open>The alternating sum of even derivatives\<close>

lemma DERIV_Gsum: "DERIV (Gsum K p) y :> Gsum' K p y"
  unfolding Gsum_def [abs_def] Gsum'_def
  by (auto intro!: derivative_eq_intros DERIV_peval simp: mult.commute)

lemma telescope:
  fixes a :: "nat \<Rightarrow> real"
  shows "(\<Sum>i<K. (- 1) ^ i * (a (Suc i) + a i)) = a 0 - (- 1) ^ K * a K"
  by (induction K) (simp_all add: algebra_simps)

lemma DERIV_Gsum':
  assumes "length p \<le> 2 * K"
  shows "DERIV (Gsum' K p) y :> peval p y - Gsum K p y"
proof -
  have "DERIV (Gsum' K p) y :> (\<Sum>i<K. (- 1) ^ i * peval ((pderiv ^^ (2 * i + 2)) p) y)"
    unfolding Gsum'_def [abs_def]
    by (auto intro!: derivative_eq_intros DERIV_peval simp: mult.commute)
  moreover have "(\<Sum>i<K. (- 1) ^ i * peval ((pderiv ^^ (2 * i + 2)) p) y) + Gsum K p y
        = peval p y"
  proof -
    have "(\<Sum>i<K. (- 1) ^ i * peval ((pderiv ^^ (2 * i + 2)) p) y) + Gsum K p y
        = (\<Sum>i<K. (- 1) ^ i * (peval ((pderiv ^^ (2 * Suc i)) p) y
                                 + peval ((pderiv ^^ (2 * i)) p) y))"
      by (simp add: Gsum_def sum.distrib [symmetric] algebra_simps)
    also have "\<dots> = peval ((pderiv ^^ (2 * 0)) p) y
                       - (- 1) ^ K * peval ((pderiv ^^ (2 * K)) p) y"
      by (rule telescope [where a = "\<lambda>i. peval ((pderiv ^^ (2 * i)) p) y"])
    also have "\<dots> = peval p y"
      using assms by (simp add: peval_funpow_beyond)
    finally show ?thesis .
  qed
  then have "(\<Sum>i<K. (- 1) ^ i * peval ((pderiv ^^ (2 * i + 2)) p) y)
        = peval p y - Gsum K p y"
    by linarith
  ultimately show ?thesis by (simp only:)
qed

lemma DERIV_H:
  assumes "length p \<le> 2 * K"
  shows "DERIV (\<lambda>y. Gsum K p y * cos (s - y) + Gsum' K p y * sin (s - y)) y
           :> peval p y * sin (s - y)"
  by (auto intro!: derivative_eq_intros DERIV_Gsum DERIV_Gsum' [OF assms] simp: algebra_simps)

section \<open>The polynomials of the argument\<close>

lemma peval_gpoly:
  "peval (gpoly s N) y = y ^ (2 * N + 2) * (real s * real s - y * y) ^ N"
proof -
  have "peval (gpoly s N) y = y ^ (2 * N + 2) * peval [int s * int s, 0, - 1] y ^ N"
    by (simp only: gpoly_def peval_shift peval_ppow)
  moreover have "peval [int s * int s, 0, - 1] y = real s * real s - y * y"
    by simp
  ultimately show ?thesis by (simp only:)
qed

lemma peval_hpoly:
  "peval (hpoly s N) x = (real s - x) ^ (2 * N + 2) * (2 * real s - x) ^ N"
proof -
  have "peval (hpoly s N) x = peval [int s, - 1] x ^ (2 * N + 2) * peval [2 * int s, - 1] x ^ N"
    by (simp only: hpoly_def peval_pmul peval_ppow)
  moreover have "peval [int s, - 1] x = real s - x" "peval [2 * int s, - 1] x = 2 * real s - x"
    by simp_all
  ultimately show ?thesis by (simp only:)
qed

lemma peval_fpoly:
  "peval (fpoly s N) x = x ^ N * ((real s - x) ^ (2 * N + 2) * (2 * real s - x) ^ N)"
  by (simp only: fpoly_def peval_shift peval_hpoly)

lemma fpoly_reflects: "peval (fpoly s N) x = peval (gpoly s N) (real s - x)"
proof -
  have "real s * real s - (real s - x) * (real s - x) = x * (2 * real s - x)"
    by (simp add: algebra_simps)
  then have "(real s * real s - (real s - x) * (real s - x)) ^ N = x ^ N * (2 * real s - x) ^ N"
    by (simp add: power_mult_distrib)
  then show ?thesis
    by (simp only: peval_fpoly peval_gpoly) (simp only: mult_ac)
qed

lemma gpoly_even: "peval (gpoly s N) y = peval (gpoly s N) (0 - y)"
proof -
  have "even (2 * N + 2)" by simp
  then have "(0 - y) ^ (2 * N + 2) = y ^ (2 * N + 2)"
    by (simp only: diff_0 power_minus_even)
  moreover have "(0 - y) * (0 - y) = y * y" by simp
  ultimately show ?thesis by (simp only: peval_gpoly)
qed

lemma coeff_hpoly_0: "coeff (hpoly s N) 0 = int s ^ (2 * N + 2) * (2 * int s) ^ N"
proof -
  have "real_of_int (coeff (hpoly s N) 0) = peval (hpoly s N) 0"
    by (simp add: peval_0)
  also have "\<dots> = real_of_int (int s ^ (2 * N + 2) * (2 * int s) ^ N)"
    by (simp only: peval_hpoly) simp
  finally show ?thesis by (simp only: of_int_eq_iff)
qed

lemma gpoly_bound:
  assumes "0 \<le> y" and "y \<le> real s"
  shows "\<bar>peval (gpoly s N) y\<bar> \<le> real s ^ (4 * N + 2)"
proof -
  have a: "y ^ (2 * N + 2) \<le> real s ^ (2 * N + 2)"
    using assms by (intro power_mono) simp_all
  have "y * y \<le> real s * real s"
    using assms by (intro mult_mono) simp_all
  then have b0: "0 \<le> real s * real s - y * y" "real s * real s - y * y \<le> real s * real s"
    by simp_all
  then have b: "(real s * real s - y * y) ^ N \<le> (real s * real s) ^ N"
    by (intro power_mono) simp_all
  have nn: "0 \<le> y ^ (2 * N + 2)" "0 \<le> (real s * real s - y * y) ^ N"
    using assms b0 by simp_all
  have "y ^ (2 * N + 2) * (real s * real s - y * y) ^ N
          \<le> real s ^ (2 * N + 2) * (real s * real s) ^ N"
    using a b nn by (intro mult_mono) simp_all
  also have "\<dots> = real s ^ (4 * N + 2)"
  proof -
    have "(real s * real s) ^ N = real s ^ (2 * N)"
      by (simp only: power2_eq_square [symmetric] power_mult)
    then have "real s ^ (2 * N + 2) * (real s * real s) ^ N = real s ^ (2 * N + 2 + 2 * N)"
      by (simp only: power_add)
    moreover have "2 * N + 2 + 2 * N = 4 * N + 2" by simp
    ultimately show ?thesis by (simp only:)
  qed
  finally have "y ^ (2 * N + 2) * (real s * real s - y * y) ^ N \<le> real s ^ (4 * N + 2)" .
  moreover have "0 \<le> y ^ (2 * N + 2) * (real s * real s - y * y) ^ N"
    using nn by (rule mult_nonneg_nonneg)
  ultimately show ?thesis
    by (simp only: peval_gpoly abs_of_nonneg)
qed

section \<open>The integers behind the integral\<close>

lemma Gsum_at_s: "Gsum (length (gpoly s N)) (gpoly s N) (real s) = of_int (Aint s N)"
proof -
  have "peval ((pderiv ^^ (2 * i)) (gpoly s N)) (real s)
          = of_int (fact (2 * i) * coeff (fpoly s N) (2 * i))" for i
  proof -
    have "peval ((pderiv ^^ (2 * i)) (fpoly s N)) 0
            = (- 1) ^ (2 * i) * peval ((pderiv ^^ (2 * i)) (gpoly s N)) (real s - 0)"
      by (rule reflect_funpow) (rule fpoly_reflects)
    then have "peval ((pderiv ^^ (2 * i)) (gpoly s N)) (real s)
                 = peval ((pderiv ^^ (2 * i)) (fpoly s N)) 0"
      by simp
    also have "\<dots> = of_int (coeff ((pderiv ^^ (2 * i)) (fpoly s N)) 0)"
      by (rule peval_0)
    also have "\<dots> = of_int (fact (2 * i) * coeff (fpoly s N) (2 * i))"
      by (simp only: coeff_funpow_0)
    finally show ?thesis .
  qed
  then show ?thesis
    by (simp add: Gsum_def Aint_def)
qed

lemma Gsum_at_0: "Gsum (length (gpoly s N)) (gpoly s N) 0 = of_int (Bint s N)"
proof -
  have "peval ((pderiv ^^ (2 * i)) (gpoly s N)) 0
          = of_int (fact (2 * i) * coeff (gpoly s N) (2 * i))" for i
    by (simp only: peval_0 coeff_funpow_0)
  then show ?thesis
    by (simp add: Gsum_def Bint_def)
qed

lemma Gsum'_at_0: "Gsum' K (gpoly s N) 0 = 0"
proof -
  have "peval ((pderiv ^^ (2 * i + 1)) (gpoly s N)) 0 = 0" for i
  proof -
    have "peval ((pderiv ^^ (2 * i + 1)) (gpoly s N)) 0
            = (- 1) ^ (2 * i + 1) * peval ((pderiv ^^ (2 * i + 1)) (gpoly s N)) (0 - 0)"
      by (rule reflect_funpow) (rule gpoly_even)
    then show ?thesis by simp
  qed
  then show ?thesis by (simp add: Gsum'_def)
qed

lemma integral_bound:
  assumes "0 < s"
  shows "\<bar>of_int (Aint s N) - of_int (Bint s N) * cos (real s)\<bar> \<le> real s ^ (4 * N + 3)"
proof -
  define K where "K = length (gpoly s N)"
  define H where "H = (\<lambda>y. Gsum K (gpoly s N) y * cos (real s - y)
                            + Gsum' K (gpoly s N) y * sin (real s - y))"
  have K: "length (gpoly s N) \<le> 2 * K" by (simp add: K_def)
  have d: "DERIV H y :> peval (gpoly s N) y * sin (real s - y)" for y
    unfolding H_def by (rule DERIV_H [OF K])
  have "0 < real s" using assms by simp
  then obtain z where z: "0 < z" "z < real s"
    and eq: "H (real s) - H 0 = (real s - 0) * (peval (gpoly s N) z * sin (real s - z))"
    using MVT2 [of 0 "real s" H "\<lambda>y. peval (gpoly s N) y * sin (real s - y)"] d by blast
  have v: "H (real s) - H 0 = of_int (Aint s N) - of_int (Bint s N) * cos (real s)"
    by (simp add: H_def K_def Gsum_at_s Gsum_at_0 Gsum'_at_0)
  have "\<bar>peval (gpoly s N) z * sin (real s - z)\<bar> \<le> real s ^ (4 * N + 2) * 1"
    unfolding abs_mult using z
    by (intro mult_mono gpoly_bound) simp_all
  then have "\<bar>(real s - 0) * (peval (gpoly s N) z * sin (real s - z))\<bar>
               \<le> real s * real s ^ (4 * N + 2)"
    by (simp add: abs_mult mult_left_mono)
  also have "\<dots> = real s ^ (4 * N + 3)"
    by (simp add: power_add [symmetric] numeral_3_eq_3)
  finally show ?thesis
    by (simp only: v [symmetric] eq)
qed

lemma length_gpoly: "2 * N + 2 \<le> length (gpoly s N)"
  by (simp add: gpoly_def)

lemma Bint_dvd: "fact (N + 1) dvd Bint s N"
  unfolding Bint_def
proof (rule dvd_sum)
  fix i
  show "(fact (N + 1) :: int) dvd (- 1) ^ i * (fact (2 * i) * coeff (gpoly s N) (2 * i))"
  proof (cases "2 * i < 2 * N + 2")
    case True
    then have "coeff (gpoly s N) (2 * i) = 0"
      by (simp only: gpoly_def coeff_shift if_True)
    then show ?thesis by simp
  next
    case False
    then have "N + 1 \<le> 2 * i" by simp
    then have "(fact (N + 1) :: int) dvd fact (2 * i)" by (rule fact_dvd)
    then show ?thesis by simp
  qed
qed

lemma Aint_split:
  assumes "even N"
  shows "\<exists>Z. Aint s N = (- 1) ^ (N div 2) * (fact N * coeff (hpoly s N) 0) + fact (N + 1) * Z"
proof -
  define K where "K = length (gpoly s N)"
  define t where "t = (\<lambda>i. (- 1) ^ i * (fact (2 * i) * coeff (fpoly s N) (2 * i)))"
  have "2 * N + 2 \<le> K" unfolding K_def by (rule length_gpoly)
  then have m: "N div 2 < K" by simp
  have N2: "2 * (N div 2) = N" using assms by simp
  have "Aint s N = t (N div 2) + sum t ({..<K} - {N div 2})"
    unfolding Aint_def K_def [symmetric] t_def [symmetric]
    by (rule sum.remove) (simp_all add: m)
  moreover have "t (N div 2) = (- 1) ^ (N div 2) * (fact N * coeff (hpoly s N) 0)"
    by (simp add: t_def N2 fpoly_def coeff_shift)
  moreover have "(fact (N + 1) :: int) dvd sum t ({..<K} - {N div 2})"
  proof (rule dvd_sum)
    fix i assume "i \<in> {..<K} - {N div 2}"
    then have ne: "2 * i \<noteq> N" using N2 by auto
    show "(fact (N + 1) :: int) dvd t i"
    proof (cases "2 * i < N")
      case True
      then have "coeff (fpoly s N) (2 * i) = 0"
        by (simp only: fpoly_def coeff_shift if_True)
      then show ?thesis by (simp add: t_def)
    next
      case False
      with ne have "N + 1 \<le> 2 * i" by simp
      then have "(fact (N + 1) :: int) dvd fact (2 * i)" by (rule fact_dvd)
      then show ?thesis by (simp add: t_def)
    qed
  qed
  ultimately show ?thesis by (auto simp: dvd_def)
qed

lemma integer_large:
  assumes "even N" and "0 < N"
    and "coprime (int (N + 1)) (int d * coeff (hpoly s N) 0)"
  shows "fact N \<le> \<bar>int d * Aint s N - c * Bint s N\<bar>"
proof -
  define h where "h = coeff (hpoly s N) 0"
  obtain Z where Z: "Aint s N = (- 1) ^ (N div 2) * (fact N * h) + fact (N + 1) * Z"
    using Aint_split [OF assms(1)] unfolding h_def by blast
  obtain Y where Y: "Bint s N = fact (N + 1) * Y"
    using Bint_dvd [of N s] by (auto simp: dvd_def)
  define E' where "E' = (- 1) ^ (N div 2) * (int d * h) + int (N + 1) * (int d * Z - c * Y)"
  have E: "int d * Aint s N - c * Bint s N = fact N * E'"
    by (simp add: Z Y E'_def algebra_simps)
  have "E' \<noteq> 0"
  proof
    assume "E' = 0"
    then have "(- 1) ^ (N div 2) * (int d * h) = int (N + 1) * - (int d * Z - c * Y)"
      by (simp add: E'_def algebra_simps)
    then have "int (N + 1) dvd (- 1) ^ (N div 2) * (int d * h)"
      by (metis dvd_triv_left)
    then have "int (N + 1) dvd int d * h"
      by (cases "even (N div 2)") simp_all
    moreover have "coprime (int (N + 1)) (int d * h)"
      using assms(3) by (simp add: h_def)
    ultimately have "is_unit (int (N + 1))"
      by (metis coprime_common_divisor dvd_refl)
    then show False using assms(2) by simp
  qed
  then have "1 \<le> \<bar>E'\<bar>" by simp
  then have "fact N * 1 \<le> (fact N :: int) * \<bar>E'\<bar>"
    by (intro mult_left_mono) simp_all
  then show ?thesis by (simp add: E abs_mult)
qed

section \<open>The cosine of a positive integer is irrational\<close>

lemma fact_outgrows:
  fixes C a :: real
  assumes "0 \<le> a"
  shows "\<exists>n0. \<forall>n\<ge>n0. C * a ^ n < fact n"
proof -
  have "(\<lambda>n. inverse (fact n) * a ^ n) \<longlonglongrightarrow> 0"
    by (intro summable_LIMSEQ_zero summable_exp)
  moreover have "0 < 1 / (\<bar>C\<bar> + 1)" by simp
  ultimately obtain n0 where n0: "\<forall>n\<ge>n0. norm (inverse (fact n) * a ^ n - 0) < 1 / (\<bar>C\<bar> + 1)"
    using LIMSEQ_D by blast
  have "C * a ^ n < fact n" if "n0 \<le> n" for n
  proof -
    have "norm (inverse (fact n) * a ^ n - 0) < 1 / (\<bar>C\<bar> + 1)"
      using n0 that by blast
    then have "a ^ n / fact n < 1 / (\<bar>C\<bar> + 1)"
      using assms by (simp add: field_simps)
    then have "(\<bar>C\<bar> + 1) * a ^ n < fact n"
      by (simp add: field_simps)
    moreover have "C * a ^ n \<le> (\<bar>C\<bar> + 1) * a ^ n"
      using assms by (intro mult_right_mono) simp_all
    ultimately show ?thesis by linarith
  qed
  then show ?thesis by blast
qed

theorem cos_nat_irrational:
  assumes "0 < s"
  shows "cos (real s) \<notin> \<rat>"
proof
  assume "cos (real s) \<in> \<rat>"
  then obtain c :: int and d :: nat where d: "d \<noteq> 0" and cs: "cos (real s) = of_int c / real d"
    unfolding Rats_eq_int_div_nat by blast
  obtain n0 where n0: "\<forall>n\<ge>n0. (real d * real s ^ 3) * (real s ^ 4) ^ n < fact n"
    using fact_outgrows [of "real s ^ 4" "real d * real s ^ 3"] by auto
  define N where "N = 2 * s * d * (n0 + 1)"
  have N: "even N" "0 < N" "n0 \<le> N"
  proof -
    show "even N" by (simp add: N_def)
    show "0 < N" using assms d by (simp add: N_def)
    have "1 * (n0 + 1) \<le> (2 * s * d) * (n0 + 1)"
      using assms d by (intro mult_right_mono) simp_all
    then show "n0 \<le> N" by (simp add: N_def)
  qed
  have "coprime (int N + 1) (int N)" by (rule coprime_add_one_left)
  moreover have "int N = 2 * int s * int d * int (n0 + 1)"
    unfolding N_def by (simp only: of_nat_mult of_nat_numeral)
  ultimately have "coprime (int N + 1) (2 * int s * int d * int (n0 + 1))" by simp
  then have cp: "coprime (int N + 1) 2" "coprime (int N + 1) (int s)" "coprime (int N + 1) (int d)"
    by (simp_all only: coprime_mult_right_iff)
  have "coprime (int (N + 1)) (int d * coeff (hpoly s N) 0)"
    using cp by (simp add: coeff_hpoly_0 add.commute)
  from integer_large [OF N(1,2) this, of c]
  have big: "fact N \<le> \<bar>int d * Aint s N - c * Bint s N\<bar>" .
  have "real_of_int (int d * Aint s N - c * Bint s N)
          = real d * (of_int (Aint s N) - of_int (Bint s N) * cos (real s))"
    using d by (simp add: cs algebra_simps)
  then have "\<bar>real_of_int (int d * Aint s N - c * Bint s N)\<bar>
          = real d * \<bar>of_int (Aint s N) - of_int (Bint s N) * cos (real s)\<bar>"
    by (simp add: abs_mult)
  also have "\<dots> \<le> real d * real s ^ (4 * N + 3)"
    by (intro mult_left_mono integral_bound assms) simp
  also have "\<dots> = (real d * real s ^ 3) * (real s ^ 4) ^ N"
    by (simp add: power_add power_mult)
  also have "\<dots> < fact N"
    using n0 N(3) by blast
  finally have "\<bar>real_of_int (int d * Aint s N - c * Bint s N)\<bar> < fact N" .
  moreover have "real_of_int (fact N) \<le> real_of_int \<bar>int d * Aint s N - c * Bint s N\<bar>"
    using big by (simp only: of_int_le_iff)
  ultimately show False by simp
qed

section \<open>No two images at the same place\<close>

lemma anchor_polar:
  "getSpiralCoordinates k tot =
     (500 * sqrt (real k) * cos (real k / 2), 500 * sqrt (real k) * sin (real k / 2))"
  by (simp add: getSpiralCoordinates_def centerX_def centerZ_def spiral_radius_eq spiral_angle_def)

lemma cos_half_sq_irrational:
  assumes "0 < d"
  shows "(cos (real d / 2))\<^sup>2 \<notin> \<rat>"
proof
  assume r: "(cos (real d / 2))\<^sup>2 \<in> \<rat>"
  have "cos (real d) = cos (2 * (real d / 2))" by simp
  also have "\<dots> = 2 * (cos (real d / 2))\<^sup>2 - 1" by (rule cos_double_cos)
  finally have "cos (real d) = 2 * (cos (real d / 2))\<^sup>2 - 1" .
  moreover have "2 * (cos (real d / 2))\<^sup>2 - 1 \<in> \<rat>"
    using r by (intro Rats_diff Rats_mult) simp_all
  ultimately have "cos (real d) \<in> \<rat>" by simp
  with cos_nat_irrational [OF assms] show False by simp
qed

lemma anchors_off_lattice:
  assumes "j < k"
    and x: "fst (getSpiralCoordinates k tot) - fst (getSpiralCoordinates j tot') = 5 * of_int m1"
    and z: "snd (getSpiralCoordinates k tot) - snd (getSpiralCoordinates j tot') = 5 * of_int m2"
  shows False
proof -
  define a where "a = 500 * sqrt (real k)"
  define b where "b = 500 * sqrt (real j)"
  define C where "C = cos (real (k - j) / 2)"
  have d: "0 < k - j" using assms(1) by simp
  have x': "a * cos (real k / 2) - b * cos (real j / 2) = 5 * of_int m1"
    using x by (simp add: anchor_polar a_def b_def)
  have z': "a * sin (real k / 2) - b * sin (real j / 2) = 5 * of_int m2"
    using z by (simp add: anchor_polar a_def b_def)
  have a2: "a * a = 250000 * real k" by (simp add: a_def)
  have b2: "b * b = 250000 * real j" by (simp add: b_def)
  have "real (k - j) / 2 = real k / 2 - real j / 2"
    using assms(1) by (simp add: of_nat_diff field_simps)
  then have "C = cos (real k / 2 - real j / 2)"
    by (simp only: C_def)
  then have Cd: "C = cos (real k / 2) * cos (real j / 2) + sin (real k / 2) * sin (real j / 2)"
    by (simp only: cos_diff)
  show False
  proof (cases "j = 0")
    case True
    then have "a * cos (real k / 2) = 5 * of_int m1"
      using x' by (simp add: b_def)
    then have "(a * cos (real k / 2)) * (a * cos (real k / 2)) = (5 * of_int m1) * (5 * of_int m1)"
      by simp
    then have "(a * a) * (cos (real k / 2))\<^sup>2 = 25 * (of_int m1)\<^sup>2"
      by (simp add: power2_eq_square algebra_simps)
    then have "250000 * real k * (cos (real k / 2))\<^sup>2 = 25 * (of_int m1)\<^sup>2"
      by (simp only: a2)
    then have "(cos (real k / 2))\<^sup>2 = (of_int m1)\<^sup>2 / (10000 * real k)"
      using assms(1) by (simp add: field_simps)
    moreover have "(real_of_int m1)\<^sup>2 / (10000 * real k) \<in> \<rat>"
      by (intro Rats_divide Rats_mult Rats_power) simp_all
    ultimately have "(cos (real k / 2))\<^sup>2 \<in> \<rat>" by simp
    moreover have "0 < k" using assms(1) by simp
    ultimately show False using cos_half_sq_irrational by blast
  next
    case False
    define c1 where "c1 = cos (real k / 2)"
    define s1 where "s1 = sin (real k / 2)"
    define c2 where "c2 = cos (real j / 2)"
    define s2 where "s2 = sin (real j / 2)"
    have one: "c1 * c1 + s1 * s1 = 1" "c2 * c2 + s2 * s2 = 1"
      by (simp_all add: c1_def s1_def c2_def s2_def power2_eq_square [symmetric])
    have "(a * c1 - b * c2) * (a * c1 - b * c2) + (a * s1 - b * s2) * (a * s1 - b * s2)
            = (a * a) * (c1 * c1 + s1 * s1) + (b * b) * (c2 * c2 + s2 * s2)
              - 2 * (a * b) * (c1 * c2 + s1 * s2)"
      by (simp add: algebra_simps)
    also have "\<dots> = 250000 * real k + 250000 * real j - 2 * (a * b) * C"
      by (simp only: one a2 b2 Cd c1_def s1_def c2_def s2_def) simp
    finally have "(5 * of_int m1) * (5 * of_int m1) + (5 * of_int m2) * (5 * of_int m2)
            = 250000 * real k + 250000 * real j - 2 * (a * b) * C"
      using x' z' by (simp only: c1_def s1_def c2_def s2_def)
    then have e: "2 * (a * b) * C = of_int (250000 * int k + 250000 * int j
                       - 25 * m1 * m1 - 25 * m2 * m2)"
      by simp
    define R where "R = 250000 * int k + 250000 * int j - 25 * m1 * m1 - 25 * m2 * m2"
    have "(2 * (a * b) * C) * (2 * (a * b) * C) = of_int R * of_int R"
      using e by (simp only: R_def)
    then have "4 * ((a * a) * (b * b)) * C\<^sup>2 = of_int (R * R)"
      by (simp add: power2_eq_square algebra_simps)
    then have "4 * ((250000 * real k) * (250000 * real j)) * C\<^sup>2 = of_int (R * R)"
      by (simp only: a2 b2)
    then have "C\<^sup>2 = of_int (R * R) / (4 * ((250000 * real k) * (250000 * real j)))"
      using False assms(1) by (simp add: field_simps)
    moreover have "of_int (R * R) / (4 * ((250000 * real k) * (250000 * real j))) \<in> \<rat>"
      by (intro Rats_divide Rats_mult) simp_all
    ultimately have "C\<^sup>2 \<in> \<rat>" by simp
    then show False using cos_half_sq_irrational [OF d] by (simp add: C_def)
  qed
qed


lemma grid_offset_lattice:
  "\<exists>m1 m2. fst (grid_offset cols n i conf) = 5 * of_int m1
             \<and> snd (snd (grid_offset cols n i conf)) = 5 * of_int m2"
proof -
  have "fst (grid_offset cols n i conf) = 5 * of_int (2 * int (i mod cols) - int cols)"
    by (simp add: grid_offset_def SPACING_def)
  moreover have "snd (snd (grid_offset cols n i conf))
        = 5 * of_int (2 * \<lfloor>real i / real cols\<rfloor> - \<lfloor>real n / real cols\<rfloor>)"
    by (simp add: grid_offset_def SPACING_def)
  ultimately show ?thesis by blast
qed

lemma grids_disjoint:
  assumes "j < k"
  shows "set (anchored_grid j tot images) \<inter> set (anchored_grid k tot' images') = {}"
proof (rule ccontr)
  assume "set (anchored_grid j tot images) \<inter> set (anchored_grid k tot' images') \<noteq> {}"
  then obtain p where pj: "p \<in> set (anchored_grid j tot images)"
    and pk: "p \<in> set (anchored_grid k tot' images')" by blast
  from pj obtain c n i conf
    where j: "p = vec_add (category_anchor j tot) (grid_offset c n i conf)"
    by (auto simp: anchored_grid_def)
  from pk obtain c' n' i' conf'
    where k: "p = vec_add (category_anchor k tot') (grid_offset c' n' i' conf')"
    by (auto simp: anchored_grid_def)
  obtain a1 a2 where a: "fst (grid_offset c n i conf) = 5 * of_int a1"
    "snd (snd (grid_offset c n i conf)) = 5 * of_int a2"
    using grid_offset_lattice by blast
  obtain b1 b2 where b: "fst (grid_offset c' n' i' conf') = 5 * of_int b1"
    "snd (snd (grid_offset c' n' i' conf')) = 5 * of_int b2"
    using grid_offset_lattice by blast
  have fx: "fst (vec_add (category_anchor q t) v) = fst (getSpiralCoordinates q t) + fst v"
    and fz: "snd (snd (vec_add (category_anchor q t) v))
                = snd (getSpiralCoordinates q t) + snd (snd v)" for q t v
    by (simp_all add: vec_add_def category_anchor_def split: prod.splits)
  have eq: "vec_add (category_anchor j tot) (grid_offset c n i conf)
              = vec_add (category_anchor k tot') (grid_offset c' n' i' conf')"
    using j k by simp
  have "fst (vec_add (category_anchor j tot) (grid_offset c n i conf))
          = fst (vec_add (category_anchor k tot') (grid_offset c' n' i' conf'))"
    by (simp only: eq)
  then have "fst (getSpiralCoordinates j tot) + 5 * of_int a1
          = fst (getSpiralCoordinates k tot') + 5 * of_int b1"
    by (simp only: fx a(1) b(1))
  then have x: "fst (getSpiralCoordinates k tot') - fst (getSpiralCoordinates j tot)
                  = 5 * of_int (a1 - b1)"
    by simp
  have "snd (snd (vec_add (category_anchor j tot) (grid_offset c n i conf)))
          = snd (snd (vec_add (category_anchor k tot') (grid_offset c' n' i' conf')))"
    by (simp only: eq)
  then have "snd (getSpiralCoordinates j tot) + 5 * of_int a2
          = snd (getSpiralCoordinates k tot') + 5 * of_int b2"
    by (simp only: fz a(2) b(2))
  then have z: "snd (getSpiralCoordinates k tot') - snd (getSpiralCoordinates j tot)
                  = 5 * of_int (a2 - b2)"
    by simp
  from anchors_off_lattice [OF assms x z] show False .
qed

lemma grid_distinct: "distinct (anchored_grid k tot images)"
proof (cases "images = []")
  case True
  then show ?thesis by (simp add: anchored_grid_def)
next
  case False
  define cols where "cols = grid_cols (length images)"
  let ?pos = "\<lambda>item :: nat \<times> classified.
      vec_add (category_anchor k tot) (grid_offset cols (length images) (fst item) (snd (snd item)))"
  have cols: "0 < cols"
    using False by (simp add: cols_def grid_cols_pos)
  have "distinct (map ?pos (enumerate 0 images))"
  proof (rule distinct_map [THEN iffD2], intro conjI)
    show "distinct (enumerate 0 images)"
      by (simp add: distinct_enumerate)
    show "inj_on ?pos (set (enumerate 0 images))"
    proof (rule inj_onI)
      fix a b assume a: "a \<in> set (enumerate 0 images)" and b: "b \<in> set (enumerate 0 images)"
        and eq: "?pos a = ?pos b"
      from eq have "image_position (getSpiralCoordinates k tot) cols (length images) (fst a)
                        (snd (snd a))
                      = image_position (getSpiralCoordinates k tot) cols (length images) (fst b)
                        (snd (snd b))"
        by (simp only: image_position_anchor)
      then have "fst a = fst b"
        by (rule image_position_inj [OF cols])
      moreover from a b have "snd a = images ! fst a" "snd b = images ! fst b"
        by (auto simp: in_set_enumerate_eq)
      ultimately show "a = b"
        by (simp add: prod_eq_iff)
    qed
  qed
  then show ?thesis by (simp add: anchored_grid_def cols_def)
qed

lemma distinct_concat_indexed:
  assumes "\<And>i. i < length xs \<Longrightarrow> distinct (f (n + i) (xs ! i))"
    and "\<And>i j. i < j \<Longrightarrow> j < length xs \<Longrightarrow>
            set (f (n + i) (xs ! i)) \<inter> set (f (n + j) (xs ! j)) = {}"
  shows "distinct (concat (map (\<lambda>entry. f (fst entry) (snd entry)) (enumerate n xs)))"
  using assms
proof (induction xs arbitrary: n)
  case Nil
  then show ?case by simp
next
  case (Cons x xs)
  have d0: "distinct (f n x)"
    using Cons.prems(1) [of 0] by simp
  have rest: "distinct (concat (map (\<lambda>entry. f (fst entry) (snd entry)) (enumerate (Suc n) xs)))"
  proof (rule Cons.IH)
    fix i assume "i < length xs"
    then show "distinct (f (Suc n + i) (xs ! i))"
      using Cons.prems(1) [of "Suc i"] by simp
  next
    fix i j assume "i < j" "j < length xs"
    then show "set (f (Suc n + i) (xs ! i)) \<inter> set (f (Suc n + j) (xs ! j)) = {}"
      using Cons.prems(2) [of "Suc i" "Suc j"] by simp
  qed
  have disj: "set (f n x) \<inter> set (f (fst entry) (snd entry)) = {}"
    if "entry \<in> set (enumerate (Suc n) xs)" for entry
  proof -
    define j where "j = fst entry - Suc n"
    from that have "Suc n \<le> fst entry" "fst entry < length xs + Suc n"
      "xs ! (fst entry - Suc n) = snd entry"
      by (simp_all add: in_set_enumerate_eq)
    then have j: "j < length xs" "fst entry = Suc n + j" "snd entry = xs ! j"
      by (simp_all add: j_def)
    have "set (f (n + 0) ((x # xs) ! 0)) \<inter> set (f (n + Suc j) ((x # xs) ! Suc j)) = {}"
      using j(1) by (intro Cons.prems(2)) simp_all
    then show ?thesis
      by (simp add: j(2,3))
  qed
  have "set (f n x)
          \<inter> set (concat (map (\<lambda>entry. f (fst entry) (snd entry)) (enumerate (Suc n) xs))) = {}"
    using disj by auto
  with d0 rest show ?case
    by simp
qed

theorem layout_positions_distinct:
  "distinct (map position (sprites (createParticleGroups categoriesMap initial_scene)))"
proof -
  have "distinct (concat (map (\<lambda>entry. (\<lambda>k e. anchored_grid k (length categoriesMap) (snd e))
                                       (fst entry) (snd entry))
                           (enumerate 0 (sortedCategories categoriesMap))))"
  proof (rule distinct_concat_indexed)
    fix i
    show "distinct (anchored_grid (0 + i) (length categoriesMap)
                      (snd (sortedCategories categoriesMap ! i)))"
      by (rule grid_distinct)
  next
    fix i j :: nat assume "i < j"
    then have "0 + i < 0 + j" by simp
    then show "set (anchored_grid (0 + i) (length categoriesMap)
                      (snd (sortedCategories categoriesMap ! i)))
               \<inter> set (anchored_grid (0 + j) (length categoriesMap)
                          (snd (sortedCategories categoriesMap ! j))) = {}"
      by (rule grids_disjoint)
  qed
  then show ?thesis by (simp add: layout_positions)
qed

lemma update_fresh: "k \<notin> fst ` set xs \<Longrightarrow> AList.update k v xs = xs @ [(k, v)]"
  by (induction xs) auto

lemma place_image_in_order:
  assumes "records_in_order s"
    and "image_position anchor cols n i conf \<notin> set (map position (sprites s))"
  shows "records_in_order (place_image cat anchor cols n (i, fname, conf) s)"
proof -
  have "fst ` set (imageData s) = set (map fst (imageData s))" by simp
  also have "\<dots> = set (map position (sprites s))"
    using assms(1) by (simp only: records_in_order_def)
  finally have "image_position anchor cols n i conf \<notin> fst ` set (imageData s)"
    using assms(2) by simp
  then show ?thesis
    using assms(1)
    by (simp add: records_in_order_def place_image_sprites place_image_imageData update_fresh)
qed

lemma fold_place_image_in_order:
  assumes "records_in_order s"
    and "distinct (map position (sprites (fold (place_image cat anchor cols n) items s)))"
  shows "records_in_order (fold (place_image cat anchor cols n) items s)"
  using assms(2)
proof (induction items rule: rev_induct)
  case Nil
  then show ?case using assms(1) by simp
next
  case (snoc item items)
  obtain i fname conf where item: "item = (i, fname, conf)" by (cases item) auto
  define t where "t = fold (place_image cat anchor cols n) items s"
  have sp: "map position (sprites (place_image cat anchor cols n item t))
              = map position (sprites t) @ [image_position anchor cols n i conf]"
    by (simp add: item place_image_sprites)
  from snoc.prems have d: "distinct (map position (sprites (place_image cat anchor cols n item t)))"
    by (simp add: t_def)
  then have "distinct (map position (sprites t))"
    and fresh: "image_position anchor cols n i conf \<notin> set (map position (sprites t))"
    unfolding sp by simp_all
  then have "records_in_order t"
    unfolding t_def by (intro snoc.IH)
  then have "records_in_order (place_image cat anchor cols n item t)"
    unfolding item using fresh by (rule place_image_in_order)
  then show ?case by (simp add: t_def)
qed

lemma fold_place_category_in_order:
  assumes "records_in_order s"
    and "distinct (map position (sprites (fold (place_category tot) entries s)))"
  shows "records_in_order (fold (place_category tot) entries s)"
  using assms(2)
proof (induction entries rule: rev_induct)
  case Nil
  then show ?case using assms(1) by simp
next
  case (snoc entry entries)
  obtain index cat images where e: "entry = (index, cat, images)" by (cases entry) auto
  define t where "t = fold (place_category tot) entries s"
  from snoc.prems have d: "distinct (map position (sprites (place_category tot entry t)))"
    by (simp add: t_def)
  then have "distinct (map position (sprites t))"
    by (simp add: e place_category_positions)
  then have "records_in_order t"
    unfolding t_def by (intro snoc.IH)
  then have "records_in_order (place_category tot entry t)"
    using d unfolding e place_category_def Let_def prod.case
    by (rule fold_place_image_in_order)
  then show ?case by (simp add: t_def)
qed

lemma layout_in_order: "records_in_order (createParticleGroups categoriesMap initial_scene)"
proof -
  have "records_in_order initial_scene"
    by (simp add: records_in_order_def initial_scene_def)
  moreover have "distinct (map position (sprites
      (fold (place_category (length (sortedCategories categoriesMap)))
         (enumerate 0 (sortedCategories categoriesMap)) initial_scene)))"
    using layout_positions_distinct [of categoriesMap]
    by (simp add: createParticleGroups_def Let_def)
  ultimately show ?thesis
    unfolding createParticleGroups_def Let_def by (rule fold_place_category_in_order)
qed

lemma sum_list_insort_key:
  fixes f :: "'a \<Rightarrow> nat"
  shows "sum_list (map f (insort_key k x xs)) = f x + sum_list (map f xs)"
  by (induction xs) simp_all

lemma sum_list_sort_key:
  fixes f :: "'a \<Rightarrow> nat"
  shows "sum_list (map f (sort_key k xs)) = sum_list (map f xs)"
  by (induction xs) (simp_all add: sum_list_insort_key)

lemma map_snd_of_enumerate: "map (\<lambda>entry. g (snd entry)) (enumerate n xs) = map g xs"
  by (induction xs arbitrary: n) simp_all

text \<open>
  C2. Whatever the mapping from categories to images, the layout gives no two images the
  same position, so no two records the same position key: the keys registered in the
  index are the positions of the sprites, one record for each image in the order of
  creation, none replacing another. Within a category the grid cells differ; between two
  categories the anchors never differ by a vector of the grid, because the cosine of a
  positive integer is irrational. Numbers are real numbers here.
\<close>

theorem position_keys_unique:
  "distinct (map position (sprites (createParticleGroups categoriesMap initial_scene)))
   \<and> map fst (imageData (createParticleGroups categoriesMap initial_scene))
       = map position (sprites (createParticleGroups categoriesMap initial_scene))
   \<and> map (\<lambda>ke. sprite (snd ke)) (imageData (createParticleGroups categoriesMap initial_scene))
       = [0..<length (sprites (createParticleGroups categoriesMap initial_scene))]
   \<and> distinct (map fst (imageData (createParticleGroups categoriesMap initial_scene)))
   \<and> length (sprites (createParticleGroups categoriesMap initial_scene))
       = sum_list (map (\<lambda>entry. length (snd entry)) categoriesMap)"
proof -
  define s where "s = createParticleGroups categoriesMap initial_scene"
  have d: "distinct (map position (sprites s))"
    unfolding s_def by (rule layout_positions_distinct)
  have o: "records_in_order s"
    unfolding s_def by (rule layout_in_order)
  have "length (map position (sprites s))
          = length (concat (map (\<lambda>entry. anchored_grid (fst entry) (length categoriesMap) (snd (snd entry)))
                 (enumerate 0 (sortedCategories categoriesMap))))"
    unfolding s_def by (simp only: layout_positions)
  also have "\<dots> = sum_list (map (\<lambda>entry. length (snd (snd entry)))
                        (enumerate 0 (sortedCategories categoriesMap)))"
    by (simp add: length_concat anchored_grid_def comp_def)
  also have "\<dots> = sum_list (map (\<lambda>entry. length (snd entry)) (sortedCategories categoriesMap))"
    by (simp only: map_snd_of_enumerate [where g = "\<lambda>e. length (snd e)"])
  also have "\<dots> = sum_list (map (\<lambda>entry. length (snd entry)) categoriesMap)"
    unfolding sortedCategories_def by (rule sum_list_sort_key)
  finally have l: "length (sprites s) = sum_list (map (\<lambda>entry. length (snd entry)) categoriesMap)"
    by simp
  from d o l show ?thesis
    unfolding s_def [symmetric] records_in_order_def by simp
qed


section \<open>A category with one image\<close>

text \<open>
  C3, as the claim states it, fails: the only image of the only category is laid at
  (-5, 30 * confidence, -5), while the anchor of that category is the origin.
\<close>

theorem single_image_at_anchor_counterexample:
  "map position (sprites (createParticleGroups [(''poster'', [(''a.jpg'', 1/2)])] initial_scene))
     = [(- 5, 15, - 5)]
   \<and> getSpiralCoordinates 0 1 = (0, 0)
   \<and> (- 5 :: real, - 5 :: real) \<noteq> (0, 0)"
  by (simp add: layout_defs grid_cols_1)

text \<open>
  C3, amended. A category whose only image has confidence \<open>conf\<close> gets one new sprite,
  half a cell spacing before the anchor in x and in z and raised by 30 * \<open>conf\<close>:
  at (anchorX - 5, 30 * conf, anchorZ - 5). When the input is a single category holding one
  image, the anchor is the origin and the image sits at (-5, 30 * conf, -5).
\<close>

theorem single_image_position:
  "sprites (place_category tot (k, cat, [(fname, conf)]) s) =
     sprites s @
       [\<lparr>position = (fst (getSpiralCoordinates k tot) - 5, conf * 30,
                      snd (getSpiralCoordinates k tot) - 5),
         visible = True, material_map = placeholderTexture\<rparr>]
   \<and> getSpiralCoordinates 0 1 = (0, 0)
   \<and> map position (sprites (createParticleGroups [(cat, [(fname, conf)])] initial_scene))
       = [(- 5, conf * 30, - 5)]"
  by (simp add: layout_defs grid_cols_1 split: prod.splits)

section \<open>Selection resolves the record of a sprite\<close>

lemma place_image_lookup:
  "onClick_lookup (place_image cat anchor cols n (i, fname, conf) s1) (length (sprites s1)) =
      Some \<lparr>filename = fname, category = cat, confidence = conf, sprite = length (sprites s1),
            loaded = False, highQualityLoaded = False\<rparr>"
  by (simp add: onClick_lookup_def rebuilt_key_def place_image_sprites place_image_imageData
      positionKey_def update_conv' split: prod.splits)

lemma records_in_order_frame:
  "records_in_order s \<longleftrightarrow>
     map fst (snd (frame s)) = fst (frame s)
     \<and> map (\<lambda>kf. snd (snd (snd (snd kf)))) (snd (frame s)) = [0..<length (fst (frame s))]"
  by (simp add: records_in_order_def frame_def static_entry_def comp_def)

lemma records_in_order_cong: "frame s' = frame s \<Longrightarrow> records_in_order s' = records_in_order s"
  by (simp add: records_in_order_frame)

lemma lookup_in_order:
  assumes "records_in_order s" and "distinct (map position (sprites s))"
    and "sid < length (sprites s)"
  shows "rebuilt_key s sid = fst (imageData s ! sid)"
    and "sprite (snd (imageData s ! sid)) = sid"
    and "onClick_lookup s sid = Some (snd (imageData s ! sid))"
proof -
  have keys: "map fst (imageData s) = map position (sprites s)"
    and refs: "map (\<lambda>ke. sprite (snd ke)) (imageData s) = [0..<length (sprites s)]"
    using assms(1) by (simp_all add: records_in_order_def)
  from keys have len: "length (imageData s) = length (sprites s)"
    by (rule map_eq_imp_length_eq)
  with assms(3) have i: "sid < length (imageData s)" by simp
  have "map fst (imageData s) ! sid = map position (sprites s) ! sid"
    by (simp only: keys)
  then have k: "fst (imageData s ! sid) = position (sprites s ! sid)"
    using i assms(3) by simp
  then show r: "rebuilt_key s sid = fst (imageData s ! sid)"
    by (simp add: rebuilt_key_def positionKey_def split: prod.splits)
  have "map (\<lambda>ke. sprite (snd ke)) (imageData s) ! sid = [0..<length (sprites s)] ! sid"
    by (simp only: refs)
  then show "sprite (snd (imageData s ! sid)) = sid"
    using i assms(3) by simp
  have "distinct (map fst (imageData s))"
    using assms(2) by (simp only: keys)
  moreover have "(fst (imageData s ! sid), snd (imageData s ! sid)) \<in> set (imageData s)"
    using i by simp
  ultimately have "map_of (imageData s) (fst (imageData s ! sid)) = Some (snd (imageData s ! sid))"
    by (rule map_of_is_SomeI)
  then show "onClick_lookup s sid = Some (snd (imageData s ! sid))"
    by (simp add: onClick_lookup_def r)
qed

text \<open>
  C10. Right after \<open>createParticleGroups\<close> has placed an image, the key rebuilt from the
  position of the new sprite finds exactly the record stored for it. After the whole layout
  and any sequence of later events (texture loads completing or failing, LOD updates,
  confidence filtering), every sprite created by the layout still has the position it was
  given, so the key rebuilt from its position at click time is the key under which the
  layout stored its record; the lookup of \<open>onClick\<close> returns that record, the one that
  refers to the clicked sprite, with the file, category and confidence the layout gave it.
  The lookup never misses and never returns the record of another sprite.
\<close>

theorem click_resolves_record:
  "onClick_lookup (place_image cat anchor cols n (i, fname, conf) s1) (length (sprites s1)) =
      Some \<lparr>filename = fname, category = cat, confidence = conf, sprite = length (sprites s1),
            loaded = False, highQualityLoaded = False\<rparr>
   \<and> (let s0 = createParticleGroups categoriesMap initial_scene; s = run events s0 in
        length (imageData s) = length (sprites s0)
        \<and> (\<forall>sid < length (sprites s0).
              position (sprites s ! sid) = position (sprites s0 ! sid)
              \<and> rebuilt_key s sid = fst (imageData s ! sid)
              \<and> fst (imageData s ! sid) = fst (imageData s0 ! sid)
              \<and> sprite (snd (imageData s ! sid)) = sid
              \<and> onClick_lookup s sid = Some (snd (imageData s ! sid))
              \<and> filename (snd (imageData s ! sid)) = filename (snd (imageData s0 ! sid))
              \<and> category (snd (imageData s ! sid)) = category (snd (imageData s0 ! sid))
              \<and> confidence (snd (imageData s ! sid)) = confidence (snd (imageData s0 ! sid))))"
proof -
  define s0 where "s0 = createParticleGroups categoriesMap initial_scene"
  define s where "s = run events s0"
  have fr: "frame s = frame s0"
    unfolding s_def by (rule frame_run)
  have o0: "records_in_order s0"
    unfolding s0_def by (rule layout_in_order)
  then have o: "records_in_order s"
    by (simp add: records_in_order_cong [OF fr])
  have d0: "distinct (map position (sprites s0))"
    unfolding s0_def by (rule layout_positions_distinct)
  have mp: "map position (sprites s) = map position (sprites s0)"
    using fr by (simp add: frame_def)
  then have d: "distinct (map position (sprites s))"
    using d0 by simp
  have len: "length (sprites s) = length (sprites s0)"
    by (rule frame_positions(1) [OF fr])
  have st: "map (\<lambda>ke. (fst ke, static_entry (snd ke))) (imageData s)
              = map (\<lambda>ke. (fst ke, static_entry (snd ke))) (imageData s0)"
    using fr by (simp add: frame_def)
  then have li: "length (imageData s) = length (imageData s0)"
    by (rule map_eq_imp_length_eq)
  have l0: "length (imageData s0) = length (sprites s0)"
    using o0 by (auto simp: records_in_order_def dest: map_eq_imp_length_eq)
  have all: "\<forall>sid < length (sprites s0).
              position (sprites s ! sid) = position (sprites s0 ! sid)
              \<and> rebuilt_key s sid = fst (imageData s ! sid)
              \<and> fst (imageData s ! sid) = fst (imageData s0 ! sid)
              \<and> sprite (snd (imageData s ! sid)) = sid
              \<and> onClick_lookup s sid = Some (snd (imageData s ! sid))
              \<and> filename (snd (imageData s ! sid)) = filename (snd (imageData s0 ! sid))
              \<and> category (snd (imageData s ! sid)) = category (snd (imageData s0 ! sid))
              \<and> confidence (snd (imageData s ! sid)) = confidence (snd (imageData s0 ! sid))"
  proof (intro allI impI)
    fix sid assume sid: "sid < length (sprites s0)"
    then have sid': "sid < length (sprites s)" using len by simp
    have pos: "position (sprites s ! sid) = position (sprites s0 ! sid)"
      using sid by (rule frame_positions(2) [OF fr])
    note lk = lookup_in_order [OF o d sid']
    have "map (\<lambda>ke. (fst ke, static_entry (snd ke))) (imageData s) ! sid
            = map (\<lambda>ke. (fst ke, static_entry (snd ke))) (imageData s0) ! sid"
      by (simp only: st)
    then have same: "fst (imageData s ! sid) = fst (imageData s0 ! sid)"
      "static_entry (snd (imageData s ! sid)) = static_entry (snd (imageData s0 ! sid))"
      using sid li l0 by simp_all
    from same(2) have fields:
      "filename (snd (imageData s ! sid)) = filename (snd (imageData s0 ! sid))"
      "category (snd (imageData s ! sid)) = category (snd (imageData s0 ! sid))"
      "confidence (snd (imageData s ! sid)) = confidence (snd (imageData s0 ! sid))"
      by (simp_all add: static_entry_def)
    from pos lk same(1) fields
    show "position (sprites s ! sid) = position (sprites s0 ! sid)
              \<and> rebuilt_key s sid = fst (imageData s ! sid)
              \<and> fst (imageData s ! sid) = fst (imageData s0 ! sid)
              \<and> sprite (snd (imageData s ! sid)) = sid
              \<and> onClick_lookup s sid = Some (snd (imageData s ! sid))
              \<and> filename (snd (imageData s ! sid)) = filename (snd (imageData s0 ! sid))
              \<and> category (snd (imageData s ! sid)) = category (snd (imageData s0 ! sid))
              \<and> confidence (snd (imageData s ! sid)) = confidence (snd (imageData s0 ! sid))"
      by (intro conjI)
  qed
  have "length (imageData s) = length (sprites s0)"
    using li l0 by simp
  with all show ?thesis
    unfolding Let_def s_def s0_def using place_image_lookup by blast
qed

theorem click_resolves_record_witness:
  "1 < length (sprites example_layout)
   \<and> length (imageData example_later) = 3
   \<and> rebuilt_key example_later 1 = (0, 18, - 5)
   \<and> fst (imageData example_layout ! 1) = (0, 18, - 5)
   \<and> map_option filename (onClick_lookup example_later 1) = Some ''b.jpg''
   \<and> map_option sprite (onClick_lookup example_later 1) = Some 1"
proof -
  define s0 where "s0 = createParticleGroups example_bucket initial_scene"
  define s where "s = run [LoadSucceeds 0, CameraChange (0, 18, 0), ConfidenceSlider (1/2)] s0"
  have names: "example_layout = s0" "example_later = s"
    by (simp_all add: s_def s0_def example_later_def example_layout_def)
  have len0: "length (sprites s0) = 3"
    by (simp add: s0_def example_scene)
  have th: "length (imageData s) = length (sprites s0)
        \<and> (\<forall>sid < length (sprites s0).
              position (sprites s ! sid) = position (sprites s0 ! sid)
              \<and> rebuilt_key s sid = fst (imageData s ! sid)
              \<and> fst (imageData s ! sid) = fst (imageData s0 ! sid)
              \<and> sprite (snd (imageData s ! sid)) = sid
              \<and> onClick_lookup s sid = Some (snd (imageData s ! sid))
              \<and> filename (snd (imageData s ! sid)) = filename (snd (imageData s0 ! sid))
              \<and> category (snd (imageData s ! sid)) = category (snd (imageData s0 ! sid))
              \<and> confidence (snd (imageData s ! sid)) = confidence (snd (imageData s0 ! sid)))"
    using click_resolves_record [where categoriesMap = example_bucket
        and events = "[LoadSucceeds 0, CameraChange (0, 18, 0), ConfidenceSlider (1/2)]"]
    unfolding Let_def s_def s0_def by blast
  have one: "1 < length (sprites s0)"
    using len0 by simp
  have w1: "length (imageData s) = 3"
    using th len0 by simp
  note k = th [THEN conjunct2, rule_format, OF one]
  have e0: "fst (imageData s0 ! 1) = (0, 18, - 5)" "filename (snd (imageData s0 ! 1)) = ''b.jpg''"
    by (simp_all add: s0_def example_scene)
  from k e0 have w2: "rebuilt_key s 1 = (0, 18, - 5)"
    by simp
  from k e0 have w3: "map_option filename (onClick_lookup s 1) = Some ''b.jpg''"
    by simp
  from k have w4: "map_option sprite (onClick_lookup s 1) = Some 1"
    by simp
  from one w1 w2 e0(1) w3 w4 show ?thesis
    unfolding names by (intro conjI)
qed

section \<open>Textures: the placeholder never returns\<close>

lemma cache_place_image:
  "highResTextures (place_image cat anchor cols n item s) = highResTextures s"
  by (simp add: place_image_def Let_def split: prod.splits)

lemma cache_place_category:
  "highResTextures (place_category tot entry s) = highResTextures s"
  unfolding place_category_def Let_def
  by (cases entry)
    (auto intro!: fold_invariant [where P = "\<lambda>u. highResTextures u = highResTextures s"]
      simp: cache_place_image)

lemma cache_layout:
  "highResTextures (createParticleGroups categoriesMap s) = highResTextures s"
  unfolding createParticleGroups_def Let_def
  by (rule fold_invariant [where P = "\<lambda>u. highResTextures u = highResTextures s"])
    (simp_all add: cache_place_category)

lemma cache_ok_layout: "cache_ok (createParticleGroups categoriesMap initial_scene)"
  by (simp add: cache_ok_def cache_layout initial_scene_def)

lemma cache_ok_standardLoaded: "cache_ok s \<Longrightarrow> cache_ok (standardLoaded fname sid key s)"
  by (auto simp: cache_ok_def standardLoaded_def Let_def split: option.splits)

lemma cache_ok_highLoaded: "cache_ok s \<Longrightarrow> cache_ok (highLoaded fname sid i s)"
  by (auto simp: cache_ok_def highLoaded_def Let_def)

lemma cache_lod_entry: "highResTextures (lod_entry cam i s) = highResTextures s"
  by (auto simp: lod_entry_def Let_def split: prod.splits option.splits)

lemma cache_updateLOD: "highResTextures (updateLOD cam s) = highResTextures s"
  unfolding updateLOD_def
  by (rule fold_invariant [where P = "\<lambda>u. highResTextures u = highResTextures s"])
    (simp_all add: cache_lod_entry)

lemma cache_filter: "highResTextures (filterImagesByConfidence t s) = highResTextures s"
  by (simp add: filter_sprites)

lemma cache_ok_step: "cache_ok s \<Longrightarrow> cache_ok (step ev s)"
proof (cases ev)
  case (LoadSucceeds n)
  assume c: "cache_ok s"
  then have c': "cache_ok (s\<lparr>loading := remove_nth n (loading s)\<rparr>)"
    by (simp add: cache_ok_def)
  show ?thesis
    using c c' LoadSucceeds
    by (cases "loading s ! n") (simp_all add: cache_ok_standardLoaded cache_ok_highLoaded)
next
  case (LoadFails n)
  assume "cache_ok s"
  with LoadFails show ?thesis
    by (cases "loading s ! n") (simp_all add: cache_ok_def)
next
  case (CameraChange cam)
  assume "cache_ok s"
  with CameraChange show ?thesis by (simp add: cache_ok_def cache_updateLOD)
next
  case (ConfidenceSlider t)
  assume "cache_ok s"
  with ConfidenceSlider show ?thesis by (simp add: cache_ok_def cache_filter)
qed

lemma cache_ok_run: "cache_ok s \<Longrightarrow> cache_ok (run evs s)"
  unfolding run_def
  by (rule fold_invariant [where P = cache_ok]) (simp_all add: cache_ok_step)

lemma nth_update_cases:
  "sid < length xs \<Longrightarrow> xs[r := y] ! sid = (if r = sid then y else xs ! sid)"
  by (cases "r = sid") simp_all

lemma shows_loaded_standardLoaded:
  "shows_loaded sid s \<Longrightarrow> shows_loaded sid (standardLoaded fname r key s)"
  by (auto simp: shows_loaded_def cache_ok_def standardLoaded_def Let_def nth_update_cases
      split: option.splits)

lemma shows_loaded_highLoaded:
  "shows_loaded sid s \<Longrightarrow> shows_loaded sid (highLoaded fname r i s)"
  by (auto simp: shows_loaded_def cache_ok_def highLoaded_def Let_def nth_update_cases)

lemma lod_entry_cases:
  "lod_entry cam i s = s
   \<or> (\<exists>p l. lod_entry cam i s = s\<lparr>pendingTextures := p, loading := l\<rparr>)
   \<or> (\<exists>r tex xs. highResTextures s (filename (snd (imageData s ! i))) = Some tex
         \<and> lod_entry cam i s =
             s\<lparr>sprites := (sprites s)[r := (sprites s ! r)\<lparr>material_map := tex\<rparr>],
               imageData := xs\<rparr>)"
  unfolding lod_entry_def Let_def
  by (simp split: prod.splits option.splits) blast

lemma shows_loaded_lod_entry:
  assumes "shows_loaded sid s"
  shows "shows_loaded sid (lod_entry cam i s)"
proof -
  consider "lod_entry cam i s = s"
    | p l where "lod_entry cam i s = s\<lparr>pendingTextures := p, loading := l\<rparr>"
    | r tex xs where "highResTextures s (filename (snd (imageData s ! i))) = Some tex"
        "lod_entry cam i s =
             s\<lparr>sprites := (sprites s)[r := (sprites s ! r)\<lparr>material_map := tex\<rparr>],
               imageData := xs\<rparr>"
    using lod_entry_cases [of cam i s] by blast
  then show ?thesis
  proof cases
    case 1
    with assms show ?thesis by simp
  next
    case 2
    with assms show ?thesis by (simp add: shows_loaded_def cache_ok_def)
  next
    case 3
    from 3(1) assms have "tex \<noteq> placeholderTexture"
      by (auto simp: shows_loaded_def cache_ok_def)
    with assms show ?thesis
      unfolding 3(2) by (simp add: shows_loaded_def cache_ok_def nth_update_cases)
  qed
qed

lemma shows_loaded_filter_entry:
  "shows_loaded sid s \<Longrightarrow> shows_loaded sid (filter_entry t i s)"
  by (auto simp: shows_loaded_def cache_ok_def filter_entry_def nth_update_cases
      split: prod.splits)

lemma shows_loaded_step: "shows_loaded sid s \<Longrightarrow> shows_loaded sid (step ev s)"
proof (cases ev)
  case (LoadSucceeds n)
  assume c: "shows_loaded sid s"
  then have c': "shows_loaded sid (s\<lparr>loading := remove_nth n (loading s)\<rparr>)"
    by (simp add: shows_loaded_def cache_ok_def)
  show ?thesis
    using c c' LoadSucceeds
    by (cases "loading s ! n") (simp_all add: shows_loaded_standardLoaded shows_loaded_highLoaded)
next
  case (LoadFails n)
  assume "shows_loaded sid s"
  with LoadFails show ?thesis
    by (cases "loading s ! n") (simp_all add: shows_loaded_def cache_ok_def)
next
  case (CameraChange cam)
  assume "shows_loaded sid s"
  then have "shows_loaded sid (updateLOD cam s)"
    unfolding updateLOD_def
    by (intro fold_invariant [where P = "shows_loaded sid"] shows_loaded_lod_entry)
  with CameraChange show ?thesis by simp
next
  case (ConfidenceSlider t)
  assume "shows_loaded sid s"
  then have "shows_loaded sid (filterImagesByConfidence t s)"
    unfolding filterImagesByConfidence_def
    by (intro fold_invariant [where P = "shows_loaded sid"] shows_loaded_filter_entry)
  with ConfidenceSlider show ?thesis by simp
qed

lemma shows_loaded_run: "shows_loaded sid s \<Longrightarrow> shows_loaded sid (run evs s)"
  unfolding run_def
  by (rule fold_invariant [where P = "shows_loaded sid"]) (simp_all add: shows_loaded_step)

text \<open>
  C8. Take any layout, any events up to a scene \<open>s1\<close> and any further events up to a
  scene \<open>s2\<close> (texture loads completing or failing, LOD updates, confidence filtering).
  A sprite that shows a loaded texture in \<open>s1\<close>, that is, anything but the shared
  placeholder, still shows a loaded texture in \<open>s2\<close>: no step assigns the placeholder.
  A record in the High state can be demoted to Standard, as the scene of one image shows
  below: it goes through Placeholder, Standard, High and back to Standard.
\<close>

theorem never_back_to_placeholder:
  "let s0 = createParticleGroups categoriesMap initial_scene;
       s1 = run events1 s0;
       s2 = run events2 s1
   in \<forall>sid < length (sprites s0).
        material_map (sprites s1 ! sid) \<noteq> placeholderTexture
          \<longrightarrow> material_map (sprites s2 ! sid) \<noteq> placeholderTexture"
proof -
  define s0 where "s0 = createParticleGroups categoriesMap initial_scene"
  define s1 where "s1 = run events1 s0"
  define s2 where "s2 = run events2 s1"
  have c1: "cache_ok s1"
    unfolding s1_def s0_def by (intro cache_ok_run cache_ok_layout)
  have len: "length (sprites s1) = length (sprites s0)"
    unfolding s1_def by (rule frame_positions(1) [OF frame_run])
  have "\<forall>sid < length (sprites s0).
        material_map (sprites s1 ! sid) \<noteq> placeholderTexture
          \<longrightarrow> material_map (sprites s2 ! sid) \<noteq> placeholderTexture"
  proof (intro allI impI)
    fix sid assume "sid < length (sprites s0)"
      and "material_map (sprites s1 ! sid) \<noteq> placeholderTexture"
    with c1 len have "shows_loaded sid s1"
      by (simp add: shows_loaded_def)
    then have "shows_loaded sid s2"
      unfolding s2_def by (rule shows_loaded_run)
    then show "material_map (sprites s2 ! sid) \<noteq> placeholderTexture"
      by (simp add: shows_loaded_def)
  qed
  then show ?thesis
    unfolding Let_def s0_def s1_def s2_def .
qed

theorem never_back_to_placeholder_witness:
  "0 < length (sprites (createParticleGroups example_single initial_scene))
   \<and> material_map (sprites (createParticleGroups example_single initial_scene) ! 0)
        = placeholderTexture
   \<and> material_map (sprites standard_scene ! 0) = StandardTexture ''a.jpg''
   \<and> material_map (sprites standard_scene ! 0) \<noteq> placeholderTexture
   \<and> material_map (sprites high_scene ! 0) = HighTexture ''a.jpg''
   \<and> material_map (sprites (run [CameraChange far_camera] high_scene) ! 0)
        = StandardTexture ''a.jpg''
   \<and> material_map (sprites (run [CameraChange far_camera] high_scene) ! 0)
        \<noteq> placeholderTexture"
proof -
  define s0 where "s0 = createParticleGroups example_single initial_scene"
  define s1 where "s1 = run [LoadSucceeds 0] s0"
  define s2 where "s2 = run [CameraChange near_camera, LoadSucceeds 0, CameraChange far_camera] s1"
  have s1: "s1 = standard_scene"
    by (simp add: s1_def s0_def standard_scene_def)
  have s2: "s2 = run [CameraChange far_camera] high_scene"
    by (simp add: s2_def s1 high_scene_def run_def)
  have u: "run [CameraChange far_camera] high_scene = updateLOD far_camera high_scene"
    by (simp add: run_def)
  have e: "0 < length (sprites s0)" "material_map (sprites s0 ! 0) = placeholderTexture"
    "material_map (sprites s1 ! 0) = StandardTexture ''a.jpg''"
    "material_map (sprites high_scene ! 0) = HighTexture ''a.jpg''"
    "material_map (sprites s2 ! 0) = StandardTexture ''a.jpg''"
    unfolding s2 u far_update_eq
    by (simp_all add: s0_def single_scene s1 standard_scene_eq high_scene_eq)
  have "material_map (sprites s2 ! 0) \<noteq> placeholderTexture"
    using never_back_to_placeholder [where categoriesMap = example_single
        and ?events1.0 = "[LoadSucceeds 0]"
        and ?events2.0 = "[CameraChange near_camera, LoadSucceeds 0, CameraChange far_camera]"]
      e(1,3)
    unfolding Let_def s0_def [symmetric] s1_def [symmetric] s2_def [symmetric] by auto
  with e show ?thesis
    unfolding s0_def [symmetric] s1 [symmetric] s2 [symmetric] by simp
qed

section \<open>What a level-of-detail update leaves behind\<close>

lemma lod_stable_refl: "lod_stable s s"
  by (simp add: lod_stable_def)

lemma lod_stable_trans: "lod_stable s s' \<Longrightarrow> lod_stable s' s'' \<Longrightarrow> lod_stable s s''"
  by (auto simp: lod_stable_def)

lemma visible_update_map:
  "visible (xs[r := (xs ! r)\<lparr>material_map := tex\<rparr>] ! k) = visible (xs ! k)"
proof (cases "r < length xs")
  case True
  then show ?thesis by (cases "k = r") simp_all
next
  case False
  then show ?thesis by (simp add: list_update_beyond)
qed

lemma nth_update_hq:
  "fst (xs[i := set_highQualityLoaded b (xs ! i)] ! k) = fst (xs ! k)"
  "filename (snd (xs[i := set_highQualityLoaded b (xs ! i)] ! k)) = filename (snd (xs ! k))"
  "sprite (snd (xs[i := set_highQualityLoaded b (xs ! i)] ! k)) = sprite (snd (xs ! k))"
proof -
  show "fst (xs[i := set_highQualityLoaded b (xs ! i)] ! k) = fst (xs ! k)"
  proof (cases "i < length xs")
    case True
    then show ?thesis by (cases "k = i") (simp_all add: set_highQualityLoaded_def)
  next
    case False
    then show ?thesis by (simp add: list_update_beyond)
  qed
  show "filename (snd (xs[i := set_highQualityLoaded b (xs ! i)] ! k)) = filename (snd (xs ! k))"
  proof (cases "i < length xs")
    case True
    then show ?thesis by (cases "k = i") (simp_all add: set_highQualityLoaded_def)
  next
    case False
    then show ?thesis by (simp add: list_update_beyond)
  qed
  show "sprite (snd (xs[i := set_highQualityLoaded b (xs ! i)] ! k)) = sprite (snd (xs ! k))"
  proof (cases "i < length xs")
    case True
    then show ?thesis by (cases "k = i") (simp_all add: set_highQualityLoaded_def)
  next
    case False
    then show ?thesis by (simp add: list_update_beyond)
  qed
qed

text \<open>The three outcomes of one step of the loop, with the entry it looked at.\<close>

lemma lod_entry_outcome:
  "lod_entry cam i s = s
   \<or> lod_entry cam i s =
        s\<lparr>pendingTextures := pendingTextures s @ [hq_name s i],
          loading := loading s @ [HighLoad (filename (snd (imageData s ! i)))
                                    (sprite (snd (imageData s ! i))) i]\<rparr>
   \<or> (\<exists>tex. lod_entry cam i s =
        s\<lparr>sprites := (sprites s)[sprite (snd (imageData s ! i)) :=
                         (sprites s ! sprite (snd (imageData s ! i)))\<lparr>material_map := tex\<rparr>],
          imageData := (imageData s)[i := set_highQualityLoaded False (imageData s ! i)]\<rparr>)"
  unfolding lod_entry_def Let_def hq_name_def
  by (cases "imageData s ! i") (simp split: option.splits, blast)

lemma lod_entry_stable: "lod_stable s (lod_entry cam i s)"
proof -
  consider "lod_entry cam i s = s"
    | "lod_entry cam i s =
        s\<lparr>pendingTextures := pendingTextures s @ [hq_name s i],
          loading := loading s @ [HighLoad (filename (snd (imageData s ! i)))
                                    (sprite (snd (imageData s ! i))) i]\<rparr>"
    | tex where "lod_entry cam i s =
        s\<lparr>sprites := (sprites s)[sprite (snd (imageData s ! i)) :=
                         (sprites s ! sprite (snd (imageData s ! i)))\<lparr>material_map := tex\<rparr>],
          imageData := (imageData s)[i := set_highQualityLoaded False (imageData s ! i)]\<rparr>"
    using lod_entry_outcome [of cam i s] by blast
  then show ?thesis
  proof cases
    case 1
    then show ?thesis by (simp add: lod_stable_refl)
  next
    case 2
    show ?thesis unfolding 2 by (auto simp: lod_stable_def)
  next
    case 3
    show ?thesis unfolding 3 by (simp add: lod_stable_def visible_update_map nth_update_hq)
  qed
qed

lemma lod_fold_stable: "lod_stable s (fold (lod_entry cam) js s)"
proof (induction js arbitrary: s)
  case Nil
  then show ?case by (simp add: lod_stable_refl)
next
  case (Cons j js)
  have "lod_stable s (lod_entry cam j s)" by (rule lod_entry_stable)
  moreover have "lod_stable (lod_entry cam j s) (fold (lod_entry cam) js (lod_entry cam j s))"
    by (rule Cons.IH)
  ultimately show ?case by (simp add: lod_stable_trans)
qed

lemma lod_entry_other:
  "k \<noteq> i \<Longrightarrow> imageData (lod_entry cam i s) ! k = imageData s ! k"
  using lod_entry_outcome [of cam i s] by auto

lemma lod_fold_other:
  "k \<notin> set js \<Longrightarrow> imageData (fold (lod_entry cam) js s) ! k = imageData s ! k"
  by (induction js arbitrary: s) (simp_all add: lod_entry_other)

lemma lod_entry_near:
  assumes "visible (sprites s ! sprite (snd (imageData s ! i)))"
    and "camera_distance cam s i < LOD_DISTANCE"
  shows "imageData (lod_entry cam i s) = imageData s"
    and "highQualityLoaded (snd (imageData s ! i))
         \<or> hq_name s i \<in> set (pendingTextures (lod_entry cam i s))"
  using assms unfolding lod_entry_def Let_def camera_distance_def hq_name_def
  by (cases "imageData s ! i"; simp)+

lemma lod_entry_far:
  assumes "visible (sprites s ! sprite (snd (imageData s ! i)))"
    and "LOD_DISTANCE \<le> camera_distance cam s i"
    and "highResTextures s (filename (snd (imageData s ! i))) = Some tex"
  shows "highQualityLoaded (snd (imageData s ! i)) \<Longrightarrow>
           lod_entry cam i s =
             s\<lparr>sprites := (sprites s)[sprite (snd (imageData s ! i)) :=
                         (sprites s ! sprite (snd (imageData s ! i)))\<lparr>material_map := tex\<rparr>],
               imageData := (imageData s)[i := set_highQualityLoaded False (imageData s ! i)]\<rparr>"
    and "\<not> highQualityLoaded (snd (imageData s ! i)) \<Longrightarrow> lod_entry cam i s = s"
  using assms unfolding lod_entry_def Let_def camera_distance_def
  by (cases "imageData s ! i"; simp)+

lemma lod_entry_far_not_high:
  assumes "visible (sprites s ! sprite (snd (imageData s ! i)))"
    and "LOD_DISTANCE \<le> camera_distance cam s i"
    and "highResTextures s (filename (snd (imageData s ! i))) = Some tex"
    and "i < length (imageData s)"
  shows "\<not> highQualityLoaded (snd (imageData (lod_entry cam i s) ! i))"
proof (cases "highQualityLoaded (snd (imageData s ! i))")
  case True
  show ?thesis
    unfolding lod_entry_far(1) [OF assms(1-3) True]
    using assms(4) by (simp add: set_highQualityLoaded_def)
next
  case False
  then show ?thesis
    by (simp add: lod_entry_far(2) [OF assms(1-3)])
qed

lemma updateLOD_split:
  assumes "i < length (imageData s)"
  shows "updateLOD cam s =
           fold (lod_entry cam) [Suc i..<length (imageData s)]
             (lod_entry cam i (fold (lod_entry cam) [0..<i] s))"
proof -
  have "[0..<i + (length (imageData s) - i)] = [0..<i] @ [i..<i + (length (imageData s) - i)]"
    by (rule upt_add_eq_append) simp
  moreover have "[i..<length (imageData s)] = i # [Suc i..<length (imageData s)]"
    using assms by (simp add: upt_conv_Cons)
  ultimately have "[0..<length (imageData s)] = [0..<i] @ i # [Suc i..<length (imageData s)]"
    using assms by simp
  then show ?thesis by (simp add: updateLOD_def)
qed

lemma camera_distance_stable:
  "lod_stable s s' \<Longrightarrow> camera_distance cam s' i = camera_distance cam s i"
  by (simp add: lod_stable_def camera_distance_def)

lemma entry_visible_stable: "lod_stable s s' \<Longrightarrow> entry_visible s' i = entry_visible s i"
  by (simp add: lod_stable_def entry_visible_def)

lemma hq_name_stable: "lod_stable s s' \<Longrightarrow> hq_name s' i = hq_name s i"
  by (simp add: lod_stable_def hq_name_def)

lemma updateLOD_stable: "lod_stable s (updateLOD cam s)"
  by (simp add: updateLOD_def lod_fold_stable)

lemma updateLOD_near:
  assumes "i < length (imageData s)" and "entry_visible s i"
    and "camera_distance cam s i < LOD_DISTANCE"
  shows "highQualityLoaded (snd (imageData (updateLOD cam s) ! i))
         \<or> hq_name s i \<in> set (pendingTextures (updateLOD cam s))"
proof -
  define sa where "sa = fold (lod_entry cam) [0..<i] s"
  define sb where "sb = lod_entry cam i sa"
  define sc where "sc = fold (lod_entry cam) [Suc i..<length (imageData s)] sb"
  have sc: "updateLOD cam s = sc"
    by (simp add: updateLOD_split [OF assms(1)] sa_def sb_def sc_def)
  have st_a: "lod_stable s sa" unfolding sa_def by (rule lod_fold_stable)
  have st_c: "lod_stable sb sc" unfolding sc_def by (rule lod_fold_stable)
  have ia: "imageData sa ! i = imageData s ! i"
    unfolding sa_def by (rule lod_fold_other) simp
  have ic: "imageData sc ! i = imageData sb ! i"
    unfolding sc_def by (rule lod_fold_other) simp
  have vis: "visible (sprites sa ! sprite (snd (imageData sa ! i)))"
    using entry_visible_stable [OF st_a, of i] assms(2) by (simp add: entry_visible_def)
  have near: "camera_distance cam sa i < LOD_DISTANCE"
    using camera_distance_stable [OF st_a] assms(3) by simp
  have ib: "imageData sb = imageData sa"
    unfolding sb_def by (rule lod_entry_near(1) [OF vis near])
  have "highQualityLoaded (snd (imageData sa ! i)) \<or> hq_name sa i \<in> set (pendingTextures sb)"
    unfolding sb_def by (rule lod_entry_near(2) [OF vis near])
  then have "highQualityLoaded (snd (imageData sc ! i)) \<or> hq_name s i \<in> set (pendingTextures sc)"
    using ib ic st_c hq_name_stable [OF st_a, of i] by (auto simp: lod_stable_def)
  then show ?thesis by (simp add: sc)
qed

lemma updateLOD_far:
  assumes "i < length (imageData s)" and "entry_visible s i"
    and "LOD_DISTANCE \<le> camera_distance cam s i"
    and "highResTextures s (filename (snd (imageData s ! i))) = Some tex"
  shows "\<not> highQualityLoaded (snd (imageData (updateLOD cam s) ! i))"
proof -
  define sa where "sa = fold (lod_entry cam) [0..<i] s"
  define sb where "sb = lod_entry cam i sa"
  define sc where "sc = fold (lod_entry cam) [Suc i..<length (imageData s)] sb"
  have sc: "updateLOD cam s = sc"
    by (simp add: updateLOD_split [OF assms(1)] sa_def sb_def sc_def)
  have st_a: "lod_stable s sa" unfolding sa_def by (rule lod_fold_stable)
  have ia: "imageData sa ! i = imageData s ! i"
    unfolding sa_def by (rule lod_fold_other) simp
  have ic: "imageData sc ! i = imageData sb ! i"
    unfolding sc_def by (rule lod_fold_other) simp
  have vis: "visible (sprites sa ! sprite (snd (imageData sa ! i)))"
    using entry_visible_stable [OF st_a, of i] assms(2) by (simp add: entry_visible_def)
  have far: "LOD_DISTANCE \<le> camera_distance cam sa i"
    using camera_distance_stable [OF st_a] assms(3) by simp
  have cache: "highResTextures sa (filename (snd (imageData sa ! i))) = Some tex"
    using st_a assms(4) ia by (simp add: lod_stable_def)
  have len: "i < length (imageData sa)"
    using st_a assms(1) by (simp add: lod_stable_def)
  have "\<not> highQualityLoaded (snd (imageData sb ! i))"
    unfolding sb_def by (rule lod_entry_far_not_high [OF vis far cache len])
  then show ?thesis by (simp add: sc ic)
qed

text \<open>
  C4, as the claim states it, fails. A visible record in the Standard state at distance 10
  is still in the Standard state when \<open>updateLOD\<close> returns: the high-quality texture
  is only requested. A visible record in the High state at distance 100 whose standard
  texture never arrived (its load failed) is left in the High state.
\<close>

theorem lod_update_counterexample:
  "entry_visible (updateLOD near_camera standard_scene) 0
   \<and> camera_distance near_camera (updateLOD near_camera standard_scene) 0 < LOD_DISTANCE
   \<and> resolution_state (snd (imageData (updateLOD near_camera standard_scene) ! 0)) = Standard
   \<and> entry_visible (updateLOD far_camera uncached_high_scene) 0
   \<and> LOD_DISTANCE < camera_distance far_camera (updateLOD far_camera uncached_high_scene) 0
   \<and> resolution_state (snd (imageData (updateLOD far_camera uncached_high_scene) ! 0)) = High"
  by (simp add: near_update_eq uncached_far_update)
    (simp add: standard_scene_eq uncached_high_scene_eq entry_visible_def camera_distance_def
      resolution_state_def distanceTo_def key_numbers_def near_camera_def far_camera_def
      LOD_DISTANCE_def)

text \<open>
  C4, amended. After \<open>updateLOD\<close> has run, every visible record whose camera distance
  is below the LOD threshold is in the High state or has its high-quality fetch in
  flight (its \<open>hq_\<close> name is in \<open>pendingTextures\<close>); every visible record whose
  distance is at or above the threshold and whose standard texture is cached is not left
  in the High state. The step that demotes a record swaps in the cached standard texture,
  clears the flag, and leaves the fetches in flight and the pending set as they were.
\<close>

theorem lod_update_amended:
  "(\<forall>i < length (imageData s).
      entry_visible s i \<and> camera_distance cam s i < LOD_DISTANCE \<longrightarrow>
        entry_visible (updateLOD cam s) i
        \<and> camera_distance cam (updateLOD cam s) i < LOD_DISTANCE
        \<and> (resolution_state (snd (imageData (updateLOD cam s) ! i)) = High
             \<or> hq_name (updateLOD cam s) i \<in> set (pendingTextures (updateLOD cam s))))
   \<and> (\<forall>i < length (imageData s).
      entry_visible s i \<and> LOD_DISTANCE \<le> camera_distance cam s i
      \<and> highResTextures s (filename (snd (imageData s ! i))) \<noteq> None \<longrightarrow>
        entry_visible (updateLOD cam s) i
        \<and> LOD_DISTANCE \<le> camera_distance cam (updateLOD cam s) i
        \<and> resolution_state (snd (imageData (updateLOD cam s) ! i)) \<noteq> High)
   \<and> (\<forall>i tex.
      i < length (imageData s)
      \<and> entry_visible s i \<and> LOD_DISTANCE \<le> camera_distance cam s i
      \<and> highQualityLoaded (snd (imageData s ! i))
      \<and> highResTextures s (filename (snd (imageData s ! i))) = Some tex \<longrightarrow>
        lod_entry cam i s =
          s\<lparr>sprites := (sprites s)[sprite (snd (imageData s ! i)) :=
                         (sprites s ! sprite (snd (imageData s ! i)))\<lparr>material_map := tex\<rparr>],
            imageData := (imageData s)[i := set_highQualityLoaded False (imageData s ! i)]\<rparr>
        \<and> loading (lod_entry cam i s) = loading s
        \<and> pendingTextures (lod_entry cam i s) = pendingTextures s)"
proof -
  have st: "lod_stable s (updateLOD cam s)" by (rule updateLOD_stable)
  have a: "\<forall>i < length (imageData s).
      entry_visible s i \<and> camera_distance cam s i < LOD_DISTANCE \<longrightarrow>
        entry_visible (updateLOD cam s) i
        \<and> camera_distance cam (updateLOD cam s) i < LOD_DISTANCE
        \<and> (resolution_state (snd (imageData (updateLOD cam s) ! i)) = High
             \<or> hq_name (updateLOD cam s) i \<in> set (pendingTextures (updateLOD cam s)))"
    using updateLOD_near [of _ s cam]
    by (auto simp: entry_visible_stable [OF st] camera_distance_stable [OF st]
        hq_name_stable [OF st] resolution_state_def)
  have b: "\<forall>i < length (imageData s).
      entry_visible s i \<and> LOD_DISTANCE \<le> camera_distance cam s i
      \<and> highResTextures s (filename (snd (imageData s ! i))) \<noteq> None \<longrightarrow>
        entry_visible (updateLOD cam s) i
        \<and> LOD_DISTANCE \<le> camera_distance cam (updateLOD cam s) i
        \<and> resolution_state (snd (imageData (updateLOD cam s) ! i)) \<noteq> High"
  proof (intro allI impI)
    fix i assume i: "i < length (imageData s)"
      and h: "entry_visible s i \<and> LOD_DISTANCE \<le> camera_distance cam s i
      \<and> highResTextures s (filename (snd (imageData s ! i))) \<noteq> None"
    then obtain tex where "highResTextures s (filename (snd (imageData s ! i))) = Some tex"
      by auto
    with i h have "\<not> highQualityLoaded (snd (imageData (updateLOD cam s) ! i))"
      by (intro updateLOD_far) simp_all
    with h show "entry_visible (updateLOD cam s) i
        \<and> LOD_DISTANCE \<le> camera_distance cam (updateLOD cam s) i
        \<and> resolution_state (snd (imageData (updateLOD cam s) ! i)) \<noteq> High"
      by (simp add: entry_visible_stable [OF st] camera_distance_stable [OF st]
          resolution_state_def)
  qed
  have c: "\<forall>i tex.
      i < length (imageData s)
      \<and> entry_visible s i \<and> LOD_DISTANCE \<le> camera_distance cam s i
      \<and> highQualityLoaded (snd (imageData s ! i))
      \<and> highResTextures s (filename (snd (imageData s ! i))) = Some tex \<longrightarrow>
        lod_entry cam i s =
          s\<lparr>sprites := (sprites s)[sprite (snd (imageData s ! i)) :=
                         (sprites s ! sprite (snd (imageData s ! i)))\<lparr>material_map := tex\<rparr>],
            imageData := (imageData s)[i := set_highQualityLoaded False (imageData s ! i)]\<rparr>
        \<and> loading (lod_entry cam i s) = loading s
        \<and> pendingTextures (lod_entry cam i s) = pendingTextures s"
  proof (intro allI impI)
    fix i tex
    assume h: "i < length (imageData s)
      \<and> entry_visible s i \<and> LOD_DISTANCE \<le> camera_distance cam s i
      \<and> highQualityLoaded (snd (imageData s ! i))
      \<and> highResTextures s (filename (snd (imageData s ! i))) = Some tex"
    then have eq: "lod_entry cam i s =
          s\<lparr>sprites := (sprites s)[sprite (snd (imageData s ! i)) :=
                         (sprites s ! sprite (snd (imageData s ! i)))\<lparr>material_map := tex\<rparr>],
            imageData := (imageData s)[i := set_highQualityLoaded False (imageData s ! i)]\<rparr>"
      by (intro lod_entry_far(1)) (simp_all add: entry_visible_def)
    show "lod_entry cam i s =
          s\<lparr>sprites := (sprites s)[sprite (snd (imageData s ! i)) :=
                         (sprites s ! sprite (snd (imageData s ! i)))\<lparr>material_map := tex\<rparr>],
            imageData := (imageData s)[i := set_highQualityLoaded False (imageData s ! i)]\<rparr>
        \<and> loading (lod_entry cam i s) = loading s
        \<and> pendingTextures (lod_entry cam i s) = pendingTextures s"
      by (simp add: eq)
  qed
  from a b c show ?thesis by blast
qed

theorem lod_update_amended_witness:
  "0 < length (imageData standard_scene)
   \<and> entry_visible standard_scene 0
   \<and> camera_distance near_camera standard_scene 0 < LOD_DISTANCE
   \<and> resolution_state (snd (imageData (updateLOD near_camera standard_scene) ! 0)) \<noteq> High
   \<and> hq_name (updateLOD near_camera standard_scene) 0
        \<in> set (pendingTextures (updateLOD near_camera standard_scene))
   \<and> 0 < length (imageData high_scene)
   \<and> entry_visible high_scene 0
   \<and> LOD_DISTANCE \<le> camera_distance far_camera high_scene 0
   \<and> highQualityLoaded (snd (imageData high_scene ! 0))
   \<and> highResTextures high_scene (filename (snd (imageData high_scene ! 0)))
        = Some (StandardTexture ''a.jpg'')
   \<and> resolution_state (snd (imageData (updateLOD far_camera high_scene) ! 0)) \<noteq> High
   \<and> loading (lod_entry far_camera 0 high_scene) = loading high_scene
   \<and> pendingTextures (lod_entry far_camera 0 high_scene) = pendingTextures high_scene"
proof -
  have n: "0 < length (imageData standard_scene)" "entry_visible standard_scene 0"
    "camera_distance near_camera standard_scene 0 < LOD_DISTANCE"
    by (simp_all add: standard_scene_eq entry_visible_def camera_distance_def distanceTo_def
        key_numbers_def near_camera_def LOD_DISTANCE_def)
  have ns: "resolution_state (snd (imageData (updateLOD near_camera standard_scene) ! 0)) \<noteq> High"
    by (simp add: near_update_eq) (simp add: standard_scene_eq resolution_state_def)
  have f: "0 < length (imageData high_scene)" "entry_visible high_scene 0"
    "LOD_DISTANCE \<le> camera_distance far_camera high_scene 0"
    "highQualityLoaded (snd (imageData high_scene ! 0))"
    "highResTextures high_scene (filename (snd (imageData high_scene ! 0)))
        = Some (StandardTexture ''a.jpg'')"
    by (simp_all add: high_scene_eq entry_visible_def camera_distance_def distanceTo_def
        key_numbers_def far_camera_def LOD_DISTANCE_def)
  from n ns lod_update_amended [of standard_scene near_camera]
  have a: "hq_name (updateLOD near_camera standard_scene) 0
        \<in> set (pendingTextures (updateLOD near_camera standard_scene))"
    by blast
  from f lod_update_amended [of high_scene far_camera]
  have b: "resolution_state (snd (imageData (updateLOD far_camera high_scene) ! 0)) \<noteq> High"
    by blast
  from f lod_update_amended [of high_scene far_camera]
  have c: "loading (lod_entry far_camera 0 high_scene) = loading high_scene
   \<and> pendingTextures (lod_entry far_camera 0 high_scene) = pendingTextures high_scene"
    by blast
  from n ns f a b c show ?thesis by blast
qed

section \<open>Rounding to doubles\<close>

lemma bits_upper: "n < 2 ^ bits n"
proof (induction n rule: bits.induct)
  case (1 n)
  show ?case
  proof (cases "n = 0")
    case True
    then show ?thesis by (simp add: bits.simps)
  next
    case False
    then have "n div 2 < 2 ^ bits (n div 2)" by (rule 1)
    then have "n < 2 * 2 ^ bits (n div 2)" by linarith
    with False show ?thesis by (subst bits.simps) simp
  qed
qed

lemma bits_lower: "0 < n \<Longrightarrow> 2 ^ (bits n - 1) \<le> n"
proof (induction n rule: bits.induct)
  case (1 n)
  then have n: "n \<noteq> 0" by simp
  show ?case
  proof (cases "n div 2 = 0")
    case True
    then have "bits (n div 2) = 0" by (simp add: bits.simps)
    with n have "bits n = 1" by (subst bits.simps) simp
    with 1 show ?thesis by simp
  next
    case False
    then have ih: "2 ^ (bits (n div 2) - 1) \<le> n div 2" using 1 n by simp
    have pos: "0 < bits (n div 2)" using False by (subst bits.simps) simp
    have "bits n = Suc (bits (n div 2))" using n by (subst bits.simps) simp
    then have "(2::nat) ^ (bits n - 1) = 2 * 2 ^ (bits (n div 2) - 1)"
      using pos by (cases "bits (n div 2)") simp_all
    also have "\<dots> \<le> 2 * (n div 2)" using ih by simp
    also have "\<dots> \<le> n" by simp
    finally show ?thesis .
  qed
qed


lemma expo_upper:
  assumes "0 < x"
  shows "x < 2 powi (expo x + 1)"
proof (cases "1 \<le> x")
  case True
  define n where "n = nat \<lfloor>x\<rfloor>"
  have n: "0 < n" "x < real n + 1"
    using True by (simp_all add: n_def)
  have "n < 2 ^ bits n" by (rule bits_upper)
  then have "Suc n \<le> 2 ^ bits n" by simp
  then have "real (Suc n) \<le> real (2 ^ bits n)" by (simp only: of_nat_le_iff)
  then have "real n + 1 \<le> (2::real) ^ bits n" by simp
  then have le: "x < (2::real) ^ bits n" using n(2) by linarith
  have "expo x + 1 = int (bits n)"
    using True by (simp add: expo_def n_def)
  then show ?thesis using le by simp
next
  case False
  define m where "m = nat (\<lceil>1 / x\<rceil> - 1)"
  have inv: "1 < 1 / x" using assms False by simp
  then have c: "2 \<le> \<lceil>1 / x\<rceil>" by linarith
  then have k: "0 \<le> \<lceil>1 / x\<rceil> - 1" by linarith
  then have "real m = of_int (\<lceil>1 / x\<rceil> - 1)" unfolding m_def by (simp only: of_nat_nat)
  then have m: "real m = of_int \<lceil>1 / x\<rceil> - 1" "0 < m" using c by (simp_all add: m_def)
  have "2 ^ (bits m - 1) \<le> m" using m(2) by (rule bits_lower)
  then have "real (2 ^ (bits m - 1)) \<le> real m" by (simp only: of_nat_le_iff)
  then have "(2::real) ^ (bits m - 1) < 1 / x" using m(1) by simp linarith
  then have "x * 2 ^ (bits m - 1) < 1" using assms by (simp add: field_simps)
  then have lt: "x < 1 / 2 ^ (bits m - 1)" by (simp add: field_simps)
  have b: "0 < bits m" using m(2) by (subst bits.simps) simp
  have "expo x + 1 = - int (bits m - 1)" using False b by (simp add: expo_def m_def)
  then show ?thesis using lt by (simp add: power_int_minus field_simps)
qed










lemma percent_values:
  "percentComplete 1 1 = Some 100"
  "percentComplete 10 15 = Some 67"
  "percentComplete 15 15 = Some 100"
  "percentComplete 230 400 = Some 57"
  by code_simp+

section \<open>Batches of the classification pipeline\<close>





lemma percent_one: "percentComplete (Suc 0) (Suc 0) = Some 100"
  using percent_values(1) by simp

lemmas pipeline_defs = batch_last_def BATCH_SIZE_def log_batch_def percent_values percent_one
  run_batch_def





text \<open>
  C1. The code at a manifest of one image whose classification request is rejected: the
  promise of the image never settles, so the joint promise of the batch never settles and
  the pipeline stops there without a result. An image that fails to load is skipped and
  the pipeline finishes, with an empty mapping.
\<close>

theorem classification_failure_stalls:
  "processImagesInBatches always_rejects [''a.jpg''] 0 [] =
     ([\<lparr>batch_start = 0, batch_end = 1, progress_shown = Some 100, settled = []\<rparr>], None)
   \<and> processImagesInBatches never_loads [''a.jpg''] 0 [] =
     ([\<lparr>batch_start = 0, batch_end = 1, progress_shown = Some 100, settled = [0]\<rparr>], Some [])"
proof -
  have "processImagesInBatches always_rejects [''a.jpg''] 0 [] =
     ([\<lparr>batch_start = 0, batch_end = 1, progress_shown = Some 100, settled = []\<rparr>], None)"
    by (subst processImagesInBatches.simps) (simp add: pipeline_defs always_rejects_def)
  moreover have "processImagesInBatches never_loads [''a.jpg''] 0 [] =
     ([\<lparr>batch_start = 0, batch_end = 1, progress_shown = Some 100, settled = [0]\<rparr>], Some [])"
    by (subst processImagesInBatches.simps) (simp add: pipeline_defs never_loads_def)
  ultimately show ?thesis by blast
qed

section \<open>Progress after each batch\<close>













section \<open>When auto-rotation is switched off and on\<close>

lemmas rotation_defs = rotation_run_def initial_rotation_def first_drag_start_def
  first_drag_trace_def second_drag_start_def second_drag_trace_def
  AUTO_ROTATE_RESUME_DELAY_def WARMUP_DELAY_def last_interaction_end_def dragging_def

text \<open>
  C9. The code at a first drag after the layout. The \<open>start\<close> event switches the flag
  off, but the next frame of \<open>animate\<close> switches it on again: the drag is still in
  progress, no interaction has ended yet, and the warm-up window of 8000 ms after the layout
  has not passed. The frame compares the clock with \<open>lastUserInteractionTime\<close>, which
  is only written by the \<open>end\<close> event: it is still 0 during the first drag, and during
  a later drag it holds the end of the drag before. So a second drag, started 28 seconds
  after the first one ended, is overridden by the next frame in the same way.
\<close>

theorem auto_rotate_resumes_mid_drag:
  "\<not> autoRotate (rotation_run first_drag_start initial_rotation)
   \<and> autoRotate (rotation_run first_drag_trace initial_rotation)
   \<and> dragging first_drag_trace
   \<and> last_interaction_end first_drag_trace = None
   \<and> (1700000001016 :: int) < 1700000000000 + WARMUP_DELAY
   \<and> \<not> autoRotate (rotation_run second_drag_start initial_rotation)
   \<and> autoRotate (rotation_run second_drag_trace initial_rotation)
   \<and> dragging second_drag_trace
   \<and> last_interaction_end second_drag_trace = Some 1700000002000"
  by (simp add: rotation_defs)

end
